theory Spec2Isabelle
  imports Complex_Main "HOL-Library.Log_Nat"
begin

section \<open>Exceptions\<close>

text \<open>
  The Python exceptions that the modelled functions raise or let through. Every function
  that can raise returns \<open>error + 'a\<close>, with \<open>Inl\<close> for the exception. An exception of an
  external engine (ffmpeg, Whisper, NLLB, NLTK data) is \<open>ExternalError\<close> with its message.
  Every \<^verbatim>\<open>except\<close> clause of the repository logs and re-raises, so a handler never changes
  the exception that leaves a function.
\<close>

datatype error =
    FileNotFoundError
  | JSONDecodeError
  | KeyError string
  | TypeError
  | ValueError
  | LookupError
  | ExternalError string

section \<open>Python strings and integers\<close>

text \<open>
  A \<^verbatim>\<open>str\<close> is a list of characters, one \<open>char\<close> for each code point (code points up
  to 255). \<^verbatim>\<open>str.isspace\<close> holds for these code points: tab, line feed, vertical tab, form
  feed, carriage return, the four separators 28 to 31, space, next line (133) and
  no-break space (160).
\<close>

definition isspace :: "char \<Rightarrow> bool" where
  "isspace c \<longleftrightarrow>
     c \<in> set [CHR 0x09, CHR 0x0A, CHR 0x0B, CHR 0x0C, CHR 0x0D, CHR 0x1C, CHR 0x1D,
               CHR 0x1E, CHR 0x1F, CHR 0x20, CHR 0x85, CHR 0xA0]"

text \<open>\<^verbatim>\<open>s.strip()\<close>: leading and trailing whitespace removed.\<close>

definition py_strip :: "string \<Rightarrow> string" where
  "py_strip s = rev (dropWhile isspace (rev (dropWhile isspace s)))"

text \<open>
  \<^verbatim>\<open>xs[:n]\<close> for a Python integer \<open>n\<close>: the first \<open>n\<close> elements, and for a negative \<open>n\<close>
  all but the last \<open>-n\<close>.
\<close>

definition py_take :: "int \<Rightarrow> 'a list \<Rightarrow> 'a list" where
  "py_take n xs = (if 0 \<le> n then take (nat n) xs else take (nat (int (length xs) + n)) xs)"

text \<open>\<^verbatim>\<open>" ".join(xs)\<close>\<close>

fun join_space :: "string list \<Rightarrow> string" where
  "join_space [] = []"
| "join_space [x] = x"
| "join_space (x # y # ys) = x @ '' '' @ join_space (y # ys)"

text \<open>The decimal digits of a natural number, as \<^verbatim>\<open>str(n)\<close> writes them.\<close>

definition digit_char :: "nat \<Rightarrow> char" where
  "digit_char d = ''0123456789'' ! (d mod 10)"

fun digits :: "nat \<Rightarrow> string" where
  "digits n = (if n < 10 then [digit_char n] else digits (n div 10) @ [digit_char (n mod 10)])"

declare digits.simps [simp del]

text \<open>
  \<^verbatim>\<open>format(i, "0w")\<close>, the \<^verbatim>\<open>{i:02}\<close> and \<^verbatim>\<open>{i:03}\<close> of an f-string: the digits padded with
  zeros on the left to a width of at least \<open>w\<close>, the sign (counted in the width) first.
  A number with more digits than \<open>w\<close> is written in full.
\<close>

definition zfill :: "nat \<Rightarrow> string \<Rightarrow> string" where
  "zfill w s = replicate (w - length s) CHR ''0'' @ s"

definition format_int_zero :: "nat \<Rightarrow> int \<Rightarrow> string" where
  "format_int_zero w i =
     (if i < 0 then CHR ''-'' # zfill (w - 1) (digits (nat (- i))) else zfill w (digits (nat i)))"

section \<open>Python floats\<close>

text \<open>
  A finite \<^verbatim>\<open>float\<close> (IEEE 754 binary64) is modelled by the rational number it denotes.
  Every arithmetic operation computes the exact result and rounds it to the nearest
  double, ties to even (\<open>round_double\<close>): 53 significant bits, and below \<open>2 powi (-1022)\<close>
  the fixed spacing \<open>2 powi (-1074)\<close> of the subnormal numbers. Infinities and NaN are not
  values of the model; an operation that overflows returns \<open>None\<close>.
\<close>

definition binade :: "rat \<Rightarrow> int" where
  \<comment> \<open>the exponent \<open>e\<close> with \<open>2 powi e \<le> \<bar>x\<bar> < 2 powi (e + 1)\<close>, for \<open>x \<noteq> 0\<close>\<close>
  "binade x =
     (let (a, b) = quotient_of \<bar>x\<bar>; e0 = bitlen a - bitlen b
      in if 2 powi e0 \<le> \<bar>x\<bar> then e0 else e0 - 1)"

definition ulp :: "rat \<Rightarrow> rat" where
  "ulp x = 2 powi (max (binade x - 52) (- 1074))"

definition round_half_even :: "rat \<Rightarrow> int" where
  "round_half_even y =
     (let f = \<lfloor>y\<rfloor>; d = y - of_int f
      in if d < 1 / 2 then f else if 1 / 2 < d then f + 1 else if even f then f else f + 1)"

definition round_double :: "rat \<Rightarrow> rat" where
  "round_double x = (if x = 0 then 0 else of_int (round_half_even (x / ulp x)) * ulp x)"

text \<open>
  \<^verbatim>\<open>x * y\<close> on floats. A product that rounds to \<open>2 ^ 1024\<close> or beyond is an infinity in
  Python (no exception is raised by the multiplication itself).
\<close>

definition py_float_mul :: "rat \<Rightarrow> rat \<Rightarrow> rat option" where
  "py_float_mul x y =
     (let r = round_double (x * y) in if \<bar>r\<bar> < 2 ^ 1024 then Some r else None)"

text \<open>
  C's \<^verbatim>\<open>fmod\<close>: the remainder of the quotient truncated toward zero, with the sign of \<open>x\<close>.
  It is exact in IEEE arithmetic. The divisors of this program are the non-zero literals
  3600, 60 and 1000.
\<close>

definition py_int :: "rat \<Rightarrow> int" where
  \<comment> \<open>\<^verbatim>\<open>int(x)\<close> of a finite float: truncation toward zero\<close>
  "py_int x = (if 0 \<le> x then \<lfloor>x\<rfloor> else \<lceil>x\<rceil>)"

definition fmod :: "rat \<Rightarrow> rat \<Rightarrow> rat" where
  "fmod x y = x - of_int (py_int (x / y)) * y"

text \<open>
  \<^verbatim>\<open>vx % wx\<close> on floats (CPython, \<^verbatim>\<open>float_rem\<close>): \<^verbatim>\<open>fmod\<close>, moved by \<open>wx\<close> (a rounded
  addition) when its sign differs from the divisor's.
\<close>

definition py_float_rem :: "rat \<Rightarrow> rat \<Rightarrow> rat" where
  "py_float_rem vx wx =
     (let m = fmod vx wx
      in if m \<noteq> 0 \<and> ((wx < 0) \<noteq> (m < 0)) then round_double (m + wx) else m)"

text \<open>
  \<^verbatim>\<open>vx // wx\<close> on floats (CPython, \<^verbatim>\<open>_float_div_mod\<close>): the quotient of \<open>vx - fmod vx wx\<close>
  by \<open>wx\<close>, one less when the remainder had to be moved, snapped to the nearest integer.
\<close>

definition py_float_floordiv :: "rat \<Rightarrow> rat \<Rightarrow> rat" where
  "py_float_floordiv vx wx =
     (let m = fmod vx wx;
          div0 = round_double (round_double (vx - m) / wx);
          dv = (if m \<noteq> 0 \<and> ((wx < 0) \<noteq> (m < 0)) then round_double (div0 - 1) else div0)
      in if dv \<noteq> 0
         then (let fd = of_int \<lfloor>dv\<rfloor>
               in if 1 / 2 < round_double (dv - fd) then round_double (fd + 1) else fd)
         else 0)"

section \<open>Segments and the SRT codec (transcribe_only.py, translate_only.py)\<close>

text \<open>A segment is the tuple \<^verbatim>\<open>(start, end, text)\<close> of two floats and a string.\<close>

type_synonym segment = "rat \<times> rat \<times> string"

text \<open>
  The timestamp of \<open>save_srt_segments\<close>:
  \<^verbatim>\<open>f"{int(t // 3600):02}:{int((t % 3600) // 60):02}:{int(t % 60):02},{int((t * 1000) % 1000):03}"\<close>.
  When \<^verbatim>\<open>t * 1000\<close> overflows to an infinity, \<^verbatim>\<open>inf % 1000\<close> is NaN and \<^verbatim>\<open>int\<close> raises
  ValueError.
\<close>

definition format_timestamp :: "rat \<Rightarrow> error + string" where
  "format_timestamp t =
     (case py_float_mul t 1000 of
        None \<Rightarrow> Inl ValueError
      | Some p \<Rightarrow>
          Inr (format_int_zero 2 (py_int (py_float_floordiv t 3600)) @ '':'' @
               format_int_zero 2 (py_int (py_float_floordiv (py_float_rem t 3600) 60)) @ '':'' @
               format_int_zero 2 (py_int (py_float_rem t 60)) @ '','' @
               format_int_zero 3 (py_int (py_float_rem p 1000))))"

definition newline :: string where
  "newline = [CHR 0x0A]"

text \<open>
  One entry of the file:
  \<^verbatim>\<open>f"{idx}\n{start_time_str} --> {end_time_str}\n{text}\n\n"\<close>.
\<close>

definition srt_entry :: "nat \<Rightarrow> segment \<Rightarrow> error + string" where
  "srt_entry idx seg =
     (case seg of (start, end, text) \<Rightarrow>
        (case format_timestamp start of
           Inl e \<Rightarrow> Inl e
         | Inr start_time_str \<Rightarrow>
             (case format_timestamp end of
                Inl e \<Rightarrow> Inl e
              | Inr end_time_str \<Rightarrow>
                  Inr (digits idx @ newline @ start_time_str @ '' --> '' @ end_time_str @
                       newline @ text @ newline @ newline))))"

text \<open>
  \<^verbatim>\<open>for idx, (start, end, text) in enumerate(segments, 1)\<close>: the entries in the order of
  the list. The result is the text written to the file; an exception leaves the loop at
  the entry that raised it.
\<close>

fun srt_entries :: "nat \<Rightarrow> segment list \<Rightarrow> error + string" where
  "srt_entries idx [] = Inr []"
| "srt_entries idx (seg # rest) =
     (case srt_entry idx seg of
        Inl e \<Rightarrow> Inl e
      | Inr entry \<Rightarrow>
          (case srt_entries (Suc idx) rest of Inl e \<Rightarrow> Inl e | Inr out \<Rightarrow> Inr (entry @ out)))"

definition save_srt_segments :: "segment list \<Rightarrow> error + string" where
  "save_srt_segments segments = srt_entries 1 segments"

text \<open>\<^verbatim>\<open>for _, _, text in segments: f.write(text + "\n")\<close>\<close>

definition save_txt_segments :: "segment list \<Rightarrow> string" where
  "save_txt_segments segments = concat (map (\<lambda>(start, end, text). text @ newline) segments)"

text \<open>
  The form of a timestamp as the specification words it, \<open>HH:MM:SS,mmm\<close>: two digits each
  for the hours, minutes and seconds of a number of whole seconds, and three digits for
  a number of milliseconds.
\<close>

definition two_digits :: "nat \<Rightarrow> string" where
  "two_digits n = [digit_char (n div 10), digit_char (n mod 10)]"

definition three_digits :: "nat \<Rightarrow> string" where
  "three_digits n = [digit_char (n div 100), digit_char (n div 10 mod 10), digit_char (n mod 10)]"

definition hh_mm_ss_mmm :: "nat \<Rightarrow> nat \<Rightarrow> string" where
  "hh_mm_ss_mmm secs millis =
     two_digits (secs div 3600) @ '':'' @ two_digits (secs mod 3600 div 60) @ '':'' @
     two_digits (secs mod 60) @ '','' @ three_digits (millis mod 1000)"

section \<open>The JSON transcript (transcribe_only.py, translate_only.py)\<close>

text \<open>
  \<^verbatim>\<open>json.dump\<close> and \<^verbatim>\<open>json.load\<close> are the standard library's. The text of a file is
  modelled by the value it denotes: the file is absent, or it is not JSON, or it parses to a
  JSON value. A parsed value is the Python object \<^verbatim>\<open>json.load\<close> returns (an object is a
  \<^verbatim>\<open>dict\<close>, here a list of pairs with distinct keys; an array is a \<^verbatim>\<open>list\<close>), and
  \<^verbatim>\<open>json.dump\<close> writes a tuple as an array.
\<close>

datatype json =
    JNull
  | JBool bool
  | JNumber rat
  | JString string
  | JArray "json list"
  | JObject "(string \<times> json) list"

datatype json_file = Missing | Unparsable | Parsed json

text \<open>\<^verbatim>\<open>json.dump({"segments": segments, "lang": lang}, f, ensure_ascii=False, indent=2)\<close>\<close>

definition json_of_segment :: "segment \<Rightarrow> json" where
  "json_of_segment seg = (case seg of (start, end, text) \<Rightarrow> JArray [JNumber start, JNumber end, JString text])"

definition save_json_segments :: "segment list \<Rightarrow> string \<Rightarrow> json_file" where
  "save_json_segments segments lang =
     Parsed (JObject [(''segments'', JArray (map json_of_segment segments)), (''lang'', JString lang)])"

text \<open>
  \<^verbatim>\<open>data[key]\<close> for a string key: KeyError on a dictionary without the key, TypeError on
  every other value (a list, a string, a number, a boolean or None).
\<close>

definition getitem :: "json \<Rightarrow> string \<Rightarrow> error + json" where
  "getitem data key =
     (case data of
        JObject kvs \<Rightarrow> (case map_of kvs key of None \<Rightarrow> Inl (KeyError key) | Some v \<Rightarrow> Inr v)
      | _ \<Rightarrow> Inl TypeError)"

text \<open>
  \<open>load_segments\<close>: \<^verbatim>\<open>return data["segments"], data["lang"]\<close>. FileNotFoundError and
  JSONDecodeError are logged and raised again; nothing else is caught, and the two values
  are returned as they were read.
\<close>

definition load_segments :: "json_file \<Rightarrow> error + json \<times> json" where
  "load_segments json_file =
     (case json_file of
        Missing \<Rightarrow> Inl FileNotFoundError
      | Unparsable \<Rightarrow> Inl JSONDecodeError
      | Parsed data \<Rightarrow>
          (case getitem data ''segments'' of
             Inl e \<Rightarrow> Inl e
           | Inr segments \<Rightarrow>
               (case getitem data ''lang'' of Inl e \<Rightarrow> Inl e | Inr lang \<Rightarrow> Inr (segments, lang))))"

text \<open>
  The loaded values read at the type the annotation of \<open>load_segments\<close> declares,
  \<^verbatim>\<open>Tuple[List[Tuple[float, float, str]], str]\<close>: a list of three-element sequences of two
  numbers and a string, and a string. \<open>None\<close> when the value is not of that type.
\<close>

fun segment_of_json :: "json \<Rightarrow> segment option" where
  "segment_of_json (JArray [JNumber start, JNumber end, JString text]) = Some (start, end, text)"
| "segment_of_json _ = None"

fun those_segments :: "json list \<Rightarrow> segment list option" where
  "those_segments [] = Some []"
| "those_segments (j # js) =
     (case segment_of_json j of
        None \<Rightarrow> None
      | Some seg \<Rightarrow> (case those_segments js of None \<Rightarrow> None | Some segs \<Rightarrow> Some (seg # segs)))"

fun segments_of_json :: "json \<Rightarrow> segment list option" where
  "segments_of_json (JArray js) = those_segments js"
| "segments_of_json _ = None"

fun string_of_json :: "json \<Rightarrow> string option" where
  "string_of_json (JString s) = Some s"
| "string_of_json _ = None"

section \<open>The translation stage (translate_only.py)\<close>

text \<open>The values of \<^verbatim>\<open>config.json\<close> that the stage reads.\<close>

record translate_config =
  max_line_length :: int
  max_lines :: int
  use_regex_splitter :: bool
  language_code_map :: "string \<rightharpoonup> string"

text \<open>
  The libraries the stage calls: \<^verbatim>\<open>re.split\<close> with the pattern of \<open>split_sentences\<close>,
  NLTK's \<^verbatim>\<open>sent_tokenize\<close> (LookupError when its data is missing), the loading of the
  tokenizer and the model (\<^verbatim>\<open>from_pretrained\<close>, with the exception it raises if any), and
  the translation of one sentence: tokenizer, \<^verbatim>\<open>model.generate\<close> and
  \<^verbatim>\<open>tokenizer.decode\<close>, for a source language, a target language and a maximal length.
\<close>

record translate_libs =
  re_split :: "string \<Rightarrow> string list"
  sent_tokenize :: "string \<Rightarrow> error + string list"
  from_pretrained :: "error option"
  generate :: "string \<Rightarrow> string \<Rightarrow> nat \<Rightarrow> string \<Rightarrow> error + string"

definition dict_get :: "(string \<rightharpoonup> string) \<Rightarrow> string \<Rightarrow> string \<Rightarrow> string" where
  \<comment> \<open>\<^verbatim>\<open>d.get(k, dflt)\<close>\<close>
  "dict_get d k dflt = (case d k of None \<Rightarrow> dflt | Some v \<Rightarrow> v)"

text \<open>
  \<^verbatim>\<open>source_lang = language_code_map.get(source_lang, source_lang) or "eng_Latn"\<close>:
  Python's \<^verbatim>\<open>or\<close> returns its right operand exactly when the left one is falsy, which for a
  string means empty.
\<close>

definition map_source_lang :: "(string \<rightharpoonup> string) \<Rightarrow> string \<Rightarrow> string" where
  "map_source_lang code_map source_lang =
     (let mapped = dict_get code_map source_lang source_lang
      in if mapped = [] then ''eng_Latn'' else mapped)"

text \<open>
  \<open>split_sentences\<close>: with the regex splitter,
  \<^verbatim>\<open>[s.strip() for s in sentences if s.strip()]\<close> over the pieces of \<^verbatim>\<open>re.split\<close>;
  otherwise \<^verbatim>\<open>sent_tokenize(text)\<close>.
\<close>

definition split_sentences :: "translate_config \<Rightarrow> translate_libs \<Rightarrow> string \<Rightarrow> error + string list" where
  "split_sentences cfg libs text =
     (if use_regex_splitter cfg
      then Inr (map py_strip (filter (\<lambda>s. py_strip s \<noteq> []) (re_split libs text)))
      else sent_tokenize libs text)"

text \<open>
  Lines 103 to 106 of \<open>translate_segment\<close>:
  \<^verbatim>\<open>if len(text) > max_line_length: sentences = [s[:max_line_length] for s in sentences][:max_lines]\<close>,
  \<^verbatim>\<open>else: sentences = sentences[:max_lines]\<close>.
\<close>

definition limit_sentences :: "translate_config \<Rightarrow> string \<Rightarrow> string list \<Rightarrow> string list" where
  "limit_sentences cfg text sentences =
     (if max_line_length cfg < int (length text)
      then py_take (max_lines cfg) (map (py_take (max_line_length cfg)) sentences)
      else py_take (max_lines cfg) sentences)"

text \<open>
  The loop over the sentences. The first component of the result is the list of the
  sentences the engine was called with, in the order of the calls; an exception of the
  engine ends the loop.
\<close>

fun translate_sentences :: "(string \<Rightarrow> error + string) \<Rightarrow> string list \<Rightarrow> string list \<times> (error + string list)" where
  "translate_sentences engine [] = ([], Inr [])"
| "translate_sentences engine (sentence # rest) =
     (case engine sentence of
        Inl e \<Rightarrow> ([sentence], Inl e)
      | Inr translated \<Rightarrow>
          (case translate_sentences engine rest of
             (calls, Inl e) \<Rightarrow> (sentence # calls, Inl e)
           | (calls, Inr translated_sentences) \<Rightarrow> (sentence # calls, Inr (translated # translated_sentences))))"

text \<open>
  \<open>translate_segment\<close>, with the tokenizer and the model as the function \<open>engine\<close> of the
  target language, the maximal length and the sentence. \<^verbatim>\<open>not text\<close> holds for the empty
  string.
\<close>

definition translate_segment ::
  "translate_config \<Rightarrow> translate_libs \<Rightarrow> (string \<Rightarrow> nat \<Rightarrow> string \<Rightarrow> error + string) \<Rightarrow>
     string \<Rightarrow> nat \<Rightarrow> string \<Rightarrow> string list \<times> (error + string)" where
  "translate_segment cfg libs engine target_lang max_length text =
     (if text = [] \<or> length (py_strip text) < 3 then ([], Inr [])
      else (case split_sentences cfg libs text of
              Inl e \<Rightarrow> ([], Inl e)
            | Inr sentences \<Rightarrow>
                (case translate_sentences (engine target_lang max_length)
                        (limit_sentences cfg text sentences) of
                   (calls, Inl e) \<Rightarrow> (calls, Inl e)
                 | (calls, Inr translated_sentences) \<Rightarrow> (calls, Inr (join_space translated_sentences)))))"

text \<open>
  The loop of \<open>translate\<close> over the segments (lines 162 to 166):
  \<^verbatim>\<open>translated_segments.append((start, end, translated_text))\<close> for each segment in order.
\<close>

fun translate_segments ::
  "translate_config \<Rightarrow> translate_libs \<Rightarrow> (string \<Rightarrow> nat \<Rightarrow> string \<Rightarrow> error + string) \<Rightarrow>
     string \<Rightarrow> nat \<Rightarrow> segment list \<Rightarrow> string list \<times> (error + segment list)" where
  "translate_segments cfg libs engine target_lang max_length [] = ([], Inr [])"
| "translate_segments cfg libs engine target_lang max_length ((start, end, text) # rest) =
     (case translate_segment cfg libs engine target_lang max_length text of
        (calls, Inl e) \<Rightarrow> (calls, Inl e)
      | (calls, Inr translated_text) \<Rightarrow>
          (case translate_segments cfg libs engine target_lang max_length rest of
             (calls', Inl e) \<Rightarrow> (calls @ calls', Inl e)
           | (calls', Inr translated_segments) \<Rightarrow>
               (calls @ calls', Inr ((start, end, translated_text) # translated_segments))))"

text \<open>
  \<open>translate\<close>: the source language code, the loading of tokenizer and model, the loop with
  \<^verbatim>\<open>max_length = 512\<close>, and the two files. The result is the list of engine calls and the
  texts of the SRT and TXT files.
\<close>

definition translate ::
  "translate_config \<Rightarrow> translate_libs \<Rightarrow> segment list \<Rightarrow> string \<Rightarrow> string \<Rightarrow>
     string list \<times> (error + string \<times> string)" where
  "translate cfg libs segments source_lang target_lang =
     (let source_lang = map_source_lang (language_code_map cfg) source_lang
      in case from_pretrained libs of
           Some e \<Rightarrow> ([], Inl e)
         | None \<Rightarrow>
             (case translate_segments cfg libs (generate libs source_lang) target_lang 512 segments of
                (calls, Inl e) \<Rightarrow> (calls, Inl e)
              | (calls, Inr translated_segments) \<Rightarrow>
                  (case save_srt_segments translated_segments of
                     Inl e \<Rightarrow> (calls, Inl e)
                   | Inr srt \<Rightarrow> (calls, Inr (srt, save_txt_segments translated_segments)))))"

section \<open>The orchestrator (pipeline.py)\<close>

text \<open>
  What \<open>select_video_file\<close> sees of the file system: whether the resolved path exists,
  the resolved path in POSIX form, and the MP4 files of the configured video directory as
  \<^verbatim>\<open>glob("*.mp4")\<close> lists them.
\<close>

record video_files =
  path_exists :: "string \<Rightarrow> bool"
  resolve :: "string \<Rightarrow> string"
  glob_mp4 :: "string list"

text \<open>
  \<open>select_video_file\<close>. \<^verbatim>\<open>if video_arg:\<close> holds for a string that is not empty; None and
  the empty string both select from the directory. More than one MP4 file is a logged
  warning, and the first is used.
\<close>

definition select_video_file :: "video_files \<Rightarrow> string option \<Rightarrow> error + string" where
  "select_video_file fs video_arg =
     (if video_arg \<noteq> None \<and> video_arg \<noteq> Some []
      then (if \<not> path_exists fs (the video_arg) then Inl FileNotFoundError
            else Inr (resolve fs (the video_arg)))
      else (case glob_mp4 fs of
              [] \<Rightarrow> Inl FileNotFoundError
            | video_file # _ \<Rightarrow> Inr (resolve fs video_file)))"

text \<open>
  The four stages. What a stage does is outside the orchestrator: each is a function of the
  state of the world \<open>'w\<close> (the files) that returns the new state or the exception it
  raised. Extraction and embedding take the video file.
\<close>

datatype stage = Extract | Transcribe | Translate | Subtitles

record 'w stage_impl =
  extract_audio_from_video :: "string \<Rightarrow> 'w \<Rightarrow> error + 'w"
  transcribe_audio :: "'w \<Rightarrow> error + 'w"
  load_and_translate :: "'w \<Rightarrow> error + 'w"
  add_soft_subs :: "string \<Rightarrow> 'w \<Rightarrow> error + 'w"
  add_burned_subs :: "string \<Rightarrow> 'w \<Rightarrow> error + 'w"

text \<open>
  \<open>step_subtitles\<close>: the mode selects the embedding; any other mode is a ValueError.
  The other three steps call their stage, log, and raise again what it raised.
\<close>

definition step_subtitles :: "'w stage_impl \<Rightarrow> string \<Rightarrow> string \<Rightarrow> 'w \<Rightarrow> error + 'w" where
  "step_subtitles impl video_file mode w =
     (if mode = ''soft'' then add_soft_subs impl video_file w
      else if mode = ''burned'' then add_burned_subs impl video_file w
      else Inl ValueError)"

text \<open>
  \<^verbatim>\<open>final_mode = mode or subtitles.get('mode', 'burned')\<close>, with the mode of the
  configuration as an optional string.
\<close>

definition final_mode :: "string option \<Rightarrow> string option \<Rightarrow> string" where
  "final_mode mode config_mode =
     (if mode \<noteq> None \<and> mode \<noteq> Some [] then the mode
      else (case config_mode of None \<Rightarrow> ''burned'' | Some m \<Rightarrow> m))"

text \<open>The body of one step of \<open>run_pipeline\<close>.\<close>

definition step_action ::
  "'w stage_impl \<Rightarrow> string \<Rightarrow> string \<Rightarrow> stage \<Rightarrow> 'w \<Rightarrow> error + 'w" where
  "step_action impl video_file mode s w =
     (case s of
        Extract \<Rightarrow> extract_audio_from_video impl video_file w
      | Transcribe \<Rightarrow> transcribe_audio impl w
      | Translate \<Rightarrow> load_and_translate impl w
      | Subtitles \<Rightarrow> step_subtitles impl video_file mode w)"

text \<open>
  One \<^verbatim>\<open>if "name" in steps: step(...)\<close> of \<open>run_pipeline\<close>, on the run so far: the stages
  started, in order, and the state reached or the exception raised. After an exception
  nothing more is run.
\<close>

definition run_step ::
  "bool \<Rightarrow> stage \<Rightarrow> ('w \<Rightarrow> error + 'w) \<Rightarrow> stage list \<times> (error + 'w) \<Rightarrow> stage list \<times> (error + 'w)" where
  "run_step requested s action run =
     (case run of
        (started, Inl e) \<Rightarrow> (started, Inl e)
      | (started, Inr w) \<Rightarrow> (if requested then (started @ [s], action w) else (started, Inr w)))"

text \<open>
  \<open>run_pipeline\<close>: the video file first, then the four guarded steps in the order of the
  source text. Each \<^verbatim>\<open>except\<close> clause logs, prints and raises again.
\<close>

definition run_pipeline ::
  "video_files \<Rightarrow> 'w stage_impl \<Rightarrow> string option \<Rightarrow> string list \<Rightarrow> string option \<Rightarrow>
     string option \<Rightarrow> 'w \<Rightarrow> stage list \<times> (error + 'w)" where
  "run_pipeline fs impl config_mode steps mode video_arg w =
     (case select_video_file fs video_arg of
        Inl e \<Rightarrow> ([], Inl e)
      | Inr video_file \<Rightarrow>
          (let fm = final_mode mode config_mode
           in run_step (''subtitles'' \<in> set steps) Subtitles (step_action impl video_file fm Subtitles)
                (run_step (''translate'' \<in> set steps) Translate (step_action impl video_file fm Translate)
                  (run_step (''transcribe'' \<in> set steps) Transcribe (step_action impl video_file fm Transcribe)
                    (run_step (''extract'' \<in> set steps) Extract (step_action impl video_file fm Extract)
                      ([], Inr w))))))"

text \<open>
  The specification's reading of the orchestrator, for comparison: the stages of a list run
  one after the other, and the first exception stops the run.
\<close>

fun run_in_order :: "(stage \<Rightarrow> 'w \<Rightarrow> error + 'w) \<Rightarrow> stage list \<Rightarrow> 'w \<Rightarrow> stage list \<times> (error + 'w)" where
  "run_in_order action [] w = ([], Inr w)"
| "run_in_order action (s # rest) w =
     (case action s w of
        Inl e \<Rightarrow> ([s], Inl e)
      | Inr w' \<Rightarrow> (case run_in_order action rest w' of (started, r) \<Rightarrow> (s # started, r)))"

definition stage_name :: "stage \<Rightarrow> string" where
  "stage_name s =
     (case s of Extract \<Rightarrow> ''extract'' | Transcribe \<Rightarrow> ''transcribe''
      | Translate \<Rightarrow> ''translate'' | Subtitles \<Rightarrow> ''subtitles'')"

definition requested_stages :: "string list \<Rightarrow> stage list" where
  "requested_stages steps =
     filter (\<lambda>s. stage_name s \<in> set steps) [Extract, Transcribe, Translate, Subtitles]"

section \<open>Properties of the float operations\<close>

lemma quotient_of_abs:
  assumes "x \<noteq> 0" and "quotient_of \<bar>x\<bar> = (a, b)"
  shows "0 < a" and "0 < b" and "\<bar>x\<bar> = of_int a / of_int b"
proof -
  show b: "0 < b" using assms(2) by (rule quotient_of_denom_pos)
  show eq: "\<bar>x\<bar> = of_int a / of_int b" using assms(2) by (rule quotient_of_div)
  have "0 < \<bar>x\<bar>" using assms(1) by simp
  with eq b show "0 < a" by (simp add: zero_less_divide_iff)
qed

lemma bitlen_lower_rat: "0 < a \<Longrightarrow> (2::rat) ^ nat (bitlen a - 1) \<le> of_int a"
proof -
  assume "0 < a"
  then have "(2::int) ^ nat (bitlen a - 1) \<le> a" using bitlen_bounds by simp
  then have "(of_int ((2::int) ^ nat (bitlen a - 1)) :: rat) \<le> of_int a" by (simp only: of_int_le_iff)
  then show ?thesis by simp
qed

lemma bitlen_upper_rat: "0 < a \<Longrightarrow> (of_int a :: rat) < 2 ^ nat (bitlen a)"
proof -
  assume "0 < a"
  then have "a < 2 ^ nat (bitlen a)" using bitlen_bounds by simp
  then have "(of_int a :: rat) < of_int (2 ^ nat (bitlen a))" by (simp only: of_int_less_iff)
  then show ?thesis by simp
qed

lemma bitlen_pos: "0 < a \<Longrightarrow> 1 \<le> bitlen a"
  by (simp add: bitlen_alt_def)

lemma binade_bounds:
  assumes "x \<noteq> 0"
  shows "2 powi (binade x) \<le> \<bar>x\<bar>" and "\<bar>x\<bar> < 2 powi (binade x + 1)"
proof -
  obtain a b where q: "quotient_of \<bar>x\<bar> = (a, b)" by (cases "quotient_of \<bar>x\<bar>") auto
  note ab = quotient_of_abs [OF assms q]
  define e0 where "e0 = bitlen a - bitlen b"
  have la: "1 \<le> bitlen a" and lb: "1 \<le> bitlen b" using ab(1,2) by (simp_all add: bitlen_pos)
  have low: "(2::rat) powi (e0 - 1) \<le> \<bar>x\<bar>"
  proof -
    have "(2::rat) powi (e0 - 1) = 2 powi (bitlen a - 1) / 2 powi (bitlen b)"
      by (simp add: e0_def power_int_diff)
    also have "\<dots> = 2 ^ nat (bitlen a - 1) / 2 ^ nat (bitlen b)"
      using la lb by (simp add: power_int_def)
    also have "\<dots> \<le> of_int a / of_int b"
      using bitlen_lower_rat [OF ab(1)] bitlen_upper_rat [OF ab(2)] ab(1,2)
      by (intro frac_le) auto
    finally show ?thesis using ab(3) by simp
  qed
  have high: "\<bar>x\<bar> < (2::rat) powi (e0 + 1)"
  proof -
    have "of_int a / of_int b < (2::rat) ^ nat (bitlen a) / 2 ^ nat (bitlen b - 1)"
      using bitlen_upper_rat [OF ab(1)] bitlen_lower_rat [OF ab(2)] ab(1,2)
      by (intro frac_less) auto
    also have "\<dots> = 2 powi (bitlen a) / 2 powi (bitlen b - 1)"
      using la lb by (simp add: power_int_def)
    also have "\<dots> = 2 powi (bitlen a - (bitlen b - 1))"
      by (simp only: power_int_diff [of "2::rat", simplified])
    also have "bitlen a - (bitlen b - 1) = e0 + 1"
      by (simp add: e0_def)
    finally show ?thesis using ab(3) by simp
  qed
  have bin: "binade x = (if 2 powi e0 \<le> \<bar>x\<bar> then e0 else e0 - 1)"
    using q by (simp add: binade_def e0_def Let_def)
  show "2 powi (binade x) \<le> \<bar>x\<bar>"
    using low by (simp add: bin)
  show "\<bar>x\<bar> < 2 powi (binade x + 1)"
    using high by (simp add: bin not_le)
qed

lemma binade_unique:
  assumes "x \<noteq> 0" and "2 powi e \<le> \<bar>x\<bar>" and "\<bar>x\<bar> < 2 powi (e + 1)"
  shows "binade x = e"
proof -
  note b = binade_bounds [OF assms(1)]
  have "(2::rat) powi e < 2 powi (binade x + 1)" using assms(2) b(2) by simp
  then have 1: "e < binade x + 1"
    using power_int_increasing [of "binade x + 1" e "2::rat"] by (cases "e < binade x + 1") auto
  have "(2::rat) powi (binade x) < 2 powi (e + 1)" using assms(3) b(1) by simp
  then have 2: "binade x < e + 1"
    using power_int_increasing [of "e + 1" "binade x" "2::rat"] by (cases "binade x < e + 1") auto
  from 1 2 show ?thesis by simp
qed

lemma round_half_even_of_int: "round_half_even (of_int m) = m"
  by (simp add: round_half_even_def)

lemma round_half_even_upper: "of_int (round_half_even y) \<le> y + 1 / 2"
  unfolding round_half_even_def Let_def by (auto; linarith)

lemma round_half_even_nonneg: "0 \<le> y \<Longrightarrow> 0 \<le> round_half_even y"
  unfolding round_half_even_def Let_def by auto

lemma round_half_even_unique:
  assumes "of_int n - 1 / 2 < y" and "y < of_int n + 1 / 2"
  shows "round_half_even y = n"
proof -
  have "\<lfloor>y\<rfloor> = n \<or> \<lfloor>y\<rfloor> = n - 1" using assms by linarith
  then show ?thesis
  proof
    assume f: "\<lfloor>y\<rfloor> = n"
    then have "y - of_int n < 1 / 2" using assms by simp
    with f show ?thesis by (simp add: round_half_even_def)
  next
    assume f: "\<lfloor>y\<rfloor> = n - 1"
    then have "1 / 2 < y - of_int (n - 1)" using assms by simp
    with f show ?thesis by (simp add: round_half_even_def)
  qed
qed

lemma ulp_pos: "0 < ulp x"
  by (simp add: ulp_def)

lemma round_double_eqI:
  assumes "x \<noteq> 0" and "2 powi e \<le> \<bar>x\<bar>" and "\<bar>x\<bar> < 2 powi (e + 1)" and "- 1022 \<le> e"
    and "of_int n - 1 / 2 < x / 2 powi (e - 52)" and "x / 2 powi (e - 52) < of_int n + 1 / 2"
  shows "round_double x = of_int n * 2 powi (e - 52)"
proof -
  have "binade x = e" using assms(1-3) by (rule binade_unique)
  moreover have "max (e - 52) (- 1074) = e - 52" using assms(4) by simp
  ultimately have "ulp x = 2 powi (e - 52)" by (simp only: ulp_def)
  moreover have "round_half_even (x / 2 powi (e - 52)) = n"
    using assms(5,6) by (rule round_half_even_unique)
  ultimately show ?thesis using assms(1) by (simp add: round_double_def)
qed

lemma round_double_of_int:
  assumes "\<bar>n\<bar> < 2 ^ 53"
  shows "round_double (of_int n) = of_int n"
proof (cases "n = 0")
  case True
  then show ?thesis by (simp add: round_double_def)
next
  case False
  let ?x = "of_int n :: rat"
  have x0: "?x \<noteq> 0" using False by simp
  have "2 powi (binade ?x) \<le> \<bar>?x\<bar>" using x0 by (rule binade_bounds)
  also have "\<bar>?x\<bar> < 2 ^ 53"
  proof -
    have "(of_int \<bar>n\<bar> :: rat) < of_int (2 ^ 53)" using assms by (simp only: of_int_less_iff)
    then show ?thesis by simp
  qed
  also have "(2::rat) ^ 53 = 2 powi 53" by simp
  finally have "(2::rat) powi (binade ?x) < 2 powi 53" .
  then have "binade ?x < 53" by (rule power_int_le_imp_less_exp [rotated]) simp_all
  then have "max (binade ?x - 52) (- 1074) \<le> 0" by simp
  then obtain k where k: "max (binade ?x - 52) (- 1074) = - int k"
    by (metis nonpos_int_cases)
  have u: "ulp ?x = 1 / 2 ^ k" by (simp add: ulp_def k power_int_minus field_simps)
  have "?x / ulp ?x = of_int (n * 2 ^ k)" by (simp add: u)
  then have "round_half_even (?x / ulp ?x) = n * 2 ^ k" by (simp only: round_half_even_of_int)
  then show ?thesis using x0 by (simp add: round_double_def u)
qed

lemma round_double_nonneg: "0 \<le> x \<Longrightarrow> 0 \<le> round_double x"
  using ulp_pos [of x] by (simp add: round_double_def round_half_even_nonneg)

lemma ulp_le: "x \<noteq> 0 \<Longrightarrow> ulp x \<le> max \<bar>x\<bar> 1"
proof -
  assume x: "x \<noteq> 0"
  have "ulp x = 2 powi (binade x - 52) \<or> ulp x = 2 powi (- 1074)"
    by (simp add: ulp_def max_def)
  moreover have "(2::rat) powi (binade x - 52) \<le> 2 powi (binade x)"
    by (rule power_int_increasing) simp_all
  moreover have "(2::rat) powi (- 1074) \<le> 2 powi 0"
    by (rule power_int_increasing) simp_all
  ultimately show ?thesis using binade_bounds(1) [OF x] by (auto simp: max_def)
qed

lemma round_double_upper:
  assumes "0 \<le> x"
  shows "round_double x \<le> 2 * x + 1"
proof (cases "x = 0")
  case True
  then show ?thesis by (simp add: round_double_def)
next
  case False
  have "round_double x = of_int (round_half_even (x / ulp x)) * ulp x"
    using False by (simp add: round_double_def)
  also have "\<dots> \<le> (x / ulp x + 1 / 2) * ulp x"
    using round_half_even_upper [of "x / ulp x"] ulp_pos [of x]
    by (intro mult_right_mono) auto
  also have "\<dots> = x + ulp x / 2" using ulp_pos [of x] by (simp add: field_simps)
  also have "\<dots> \<le> x + max \<bar>x\<bar> 1 / 2" using ulp_le [OF False] by simp
  also have "\<dots> \<le> 2 * x + 1" using assms by (auto simp: max_def)
  finally show ?thesis .
qed


lemma floor_divide_rat:
  fixes x :: rat
  assumes "0 < b"
  shows "\<lfloor>x / of_int b\<rfloor> = \<lfloor>x\<rfloor> div b"
proof (rule floor_unique)
  let ?q = "\<lfloor>x\<rfloor> div b" and ?r = "\<lfloor>x\<rfloor> mod b"
  have fl: "\<lfloor>x\<rfloor> = ?q * b + ?r" by simp
  have r: "0 \<le> ?r" "?r + 1 \<le> b" using assms by (simp_all add: zless_imp_add1_zle)
  have bpos: "(0::rat) < of_int b" using assms by simp
  have "of_int (?q * b) \<le> (of_int \<lfloor>x\<rfloor> :: rat)"
    using r(1) by (subst of_int_le_iff) (metis fl le_add_same_cancel1)
  also have "\<dots> \<le> x" by simp
  finally have "of_int ?q * of_int b \<le> x" by simp
  then show "of_int ?q \<le> x / of_int b" using bpos by (simp add: pos_le_divide_eq)
  have "x < of_int (\<lfloor>x\<rfloor> + 1)" by linarith
  also have "(of_int (\<lfloor>x\<rfloor> + 1) :: rat) \<le> of_int ((?q + 1) * b)"
    using r(2) by (subst of_int_le_iff) (metis fl add.assoc add_left_mono distrib_right mult_1)
  finally have "x < (of_int ?q + 1) * of_int b" by simp
  then show "x / of_int b < of_int ?q + 1" using bpos by (simp add: pos_divide_less_eq)
qed

lemma fmod_nonneg:
  assumes "0 \<le> x" and "0 < b"
  shows "fmod x (of_int b) = x - of_int ((\<lfloor>x\<rfloor> div b) * b)"
proof -
  have "0 \<le> x / of_int b" using assms by simp
  then have "py_int (x / of_int b) = \<lfloor>x\<rfloor> div b"
    using assms(2) by (simp add: py_int_def floor_divide_rat)
  then show ?thesis by (simp add: fmod_def)
qed

lemma fmod_nonneg_bounds:
  assumes "0 \<le> x" and "0 < b"
  shows "0 \<le> fmod x (of_int b)" and "fmod x (of_int b) < of_int b"
    and "\<lfloor>fmod x (of_int b)\<rfloor> = \<lfloor>x\<rfloor> mod b"
proof -
  have eq: "fmod x (of_int b) = x - of_int ((\<lfloor>x\<rfloor> div b) * b)"
    using assms by (rule fmod_nonneg)
  have fl: "\<lfloor>fmod x (of_int b)\<rfloor> = \<lfloor>x\<rfloor> - (\<lfloor>x\<rfloor> div b) * b"
    unfolding eq by (rule floor_diff_of_int)
  also have "\<dots> = \<lfloor>x\<rfloor> mod b" by (simp add: minus_div_mult_eq_mod)
  finally show 3: "\<lfloor>fmod x (of_int b)\<rfloor> = \<lfloor>x\<rfloor> mod b" .
  have "0 \<le> \<lfloor>x\<rfloor> mod b" "\<lfloor>x\<rfloor> mod b < b" using assms(2) by simp_all
  with 3 have f: "0 \<le> \<lfloor>fmod x (of_int b)\<rfloor>" "\<lfloor>fmod x (of_int b)\<rfloor> + 1 \<le> b" by simp_all
  from f(1) show "0 \<le> fmod x (of_int b)" by simp
  have "fmod x (of_int b) < of_int (\<lfloor>fmod x (of_int b)\<rfloor> + 1)" by linarith
  also have "\<dots> \<le> of_int b" using f(2) by (simp only: of_int_le_iff)
  finally show "fmod x (of_int b) < of_int b" .
qed

lemma py_float_rem_nonneg:
  assumes "0 \<le> x" and "0 < b"
  shows "py_float_rem x (of_int b) = fmod x (of_int b)"
  using fmod_nonneg_bounds(1) [OF assms] assms(2) by (simp add: py_float_rem_def Let_def)

lemma py_float_floordiv_nonneg:
  assumes "0 \<le> x" and "0 < b" and "(\<lfloor>x\<rfloor> div b) * b < 2 ^ 53"
  shows "py_float_floordiv x (of_int b) = of_int (\<lfloor>x\<rfloor> div b)"
proof -
  let ?k = "\<lfloor>x\<rfloor> div b"
  have x0: "0 \<le> \<lfloor>x\<rfloor>" using assms(1) by simp
  then have k0: "0 \<le> ?k" using assms(2) by (simp add: pos_imp_zdiv_nonneg_iff)
  have kb: "?k \<le> ?k * b" using k0 assms(2) by (simp add: mult_le_cancel_left1)
  have m: "fmod x (of_int b) = x - of_int (?k * b)" using assms(1,2) by (rule fmod_nonneg)
  have mpos: "0 \<le> fmod x (of_int b)" using assms(1,2) by (rule fmod_nonneg_bounds)
  have "x - fmod x (of_int b) = of_int (?k * b)" by (simp add: m)
  moreover have "round_double (of_int (?k * b)) = of_int (?k * b)"
    using k0 assms(2,3) by (intro round_double_of_int) simp
  moreover have "(of_int (?k * b) :: rat) / of_int b = of_int ?k" using assms(2) by simp
  moreover have "round_double (of_int ?k) = of_int ?k"
    using k0 kb assms(3) by (intro round_double_of_int) simp
  ultimately have d0: "round_double (round_double (x - fmod x (of_int b)) / of_int b) = of_int ?k"
    by simp
  have noadj: "\<not> (fmod x (of_int b) \<noteq> 0 \<and> ((of_int b :: rat) < 0) \<noteq> (fmod x (of_int b) < 0))"
    using mpos assms(2) by simp
  have z: "round_double (of_int ?k - of_int \<lfloor>(of_int ?k :: rat)\<rfloor>) = 0"
    by (simp add: round_double_def)
  have "py_float_floordiv x (of_int b) =
      (if (of_int ?k :: rat) \<noteq> 0
       then (if 1 / 2 < round_double (of_int ?k - of_int \<lfloor>(of_int ?k :: rat)\<rfloor>)
             then round_double (of_int \<lfloor>(of_int ?k :: rat)\<rfloor> + 1)
             else of_int \<lfloor>(of_int ?k :: rat)\<rfloor>)
       else 0)"
    unfolding py_float_floordiv_def Let_def by (simp only: noadj if_False d0)
  also have "\<dots> = of_int ?k" unfolding z by simp
  finally show ?thesis .
qed

lemma digits_small: "n < 10 \<Longrightarrow> digits n = [digit_char n]"
  by (simp add: digits.simps)

lemma digits_two: "10 \<le> n \<Longrightarrow> n < 100 \<Longrightarrow> digits n = [digit_char (n div 10), digit_char (n mod 10)]"
  by (subst digits.simps) (simp add: digits_small)

lemma digits_three:
  "100 \<le> n \<Longrightarrow> n < 1000 \<Longrightarrow>
     digits n = [digit_char (n div 100), digit_char (n div 10 mod 10), digit_char (n mod 10)]"
  by (subst digits.simps) (simp add: digits_two div_mult2_eq [symmetric])

lemma digit_char_0: "digit_char 0 = CHR ''0''"
  by (simp add: digit_char_def)

lemma format_two_digits:
  assumes "0 \<le> i" and "i < 100"
  shows "format_int_zero 2 i = two_digits (nat i)"
proof (cases "nat i < 10")
  case True
  then show ?thesis
    using assms by (simp add: format_int_zero_def zfill_def digits_small two_digits_def digit_char_0)
next
  case False
  then have "10 \<le> nat i" "nat i < 100" using assms by simp_all
  then show ?thesis
    using assms by (simp add: format_int_zero_def zfill_def digits_two two_digits_def)
qed

lemma format_three_digits:
  assumes "0 \<le> i" and "i < 1000"
  shows "format_int_zero 3 i = three_digits (nat i)"
proof -
  consider "nat i < 10" | "10 \<le> nat i" "nat i < 100" | "100 \<le> nat i" "nat i < 1000"
    using assms by linarith
  then show ?thesis
  proof cases
    case 1
    then show ?thesis
      using assms
      by (simp add: format_int_zero_def zfill_def digits_small three_digits_def digit_char_0
          numeral_3_eq_3)
  next
    case 2
    then show ?thesis
      using assms
      by (simp add: format_int_zero_def zfill_def digits_two three_digits_def digit_char_0)
  next
    case 3
    then show ?thesis
      using assms by (simp add: format_int_zero_def zfill_def digits_three three_digits_def)
  qed
qed

lemma py_int_of_int: "py_int (of_int k) = k"
  by (simp add: py_int_def)

lemma round_half_even_lower: "y - 1 / 2 \<le> of_int (round_half_even y)"
  unfolding round_half_even_def Let_def by (auto; linarith)

lemma round_double_abs_le: "\<bar>round_double x\<bar> \<le> 2 * \<bar>x\<bar> + 1"
proof (cases "x = 0")
  case True
  then show ?thesis by (simp add: round_double_def)
next
  case False
  have eq: "round_double x = of_int (round_half_even (x / ulp x)) * ulp x"
    using False by (simp add: round_double_def)
  have "max \<bar>x\<bar> 1 \<le> \<bar>x\<bar> + 1" by simp
  with ulp_le [OF False] have "ulp x \<le> \<bar>x\<bar> + 1" by (rule order_trans)
  then have u: "ulp x / 2 \<le> \<bar>x\<bar> + 1" using ulp_pos [of x] by linarith
  have "round_double x \<le> (x / ulp x + 1 / 2) * ulp x"
    unfolding eq using round_half_even_upper [of "x / ulp x"] ulp_pos [of x]
    by (intro mult_right_mono) auto
  also have "\<dots> = x + ulp x / 2" using ulp_pos [of x] by (simp add: field_simps)
  finally have up: "round_double x \<le> x + ulp x / 2" .
  have "(x / ulp x - 1 / 2) * ulp x \<le> round_double x"
    unfolding eq using round_half_even_lower [of "x / ulp x"] ulp_pos [of x]
    by (intro mult_right_mono) auto
  moreover have "(x / ulp x - 1 / 2) * ulp x = x - ulp x / 2"
    using ulp_pos [of x] by (simp add: field_simps)
  ultimately have low: "x - ulp x / 2 \<le> round_double x" by simp
  from up low u show ?thesis by (simp add: abs_le_iff) linarith
qed

lemma pow2_1024_bound: "2 * ((10::rat) ^ 300 * 1000) + 1 < 2 ^ 1024"
  by simp

lemma py_float_mul_finite:
  assumes "\<bar>x\<bar> \<le> 10 ^ 300"
  shows "py_float_mul x 1000 = Some (round_double (x * 1000))"
proof -
  have "\<bar>round_double (x * 1000)\<bar> \<le> 2 * \<bar>x * 1000\<bar> + 1" by (rule round_double_abs_le)
  also have "\<dots> = 2 * (\<bar>x\<bar> * 1000) + 1" by (simp add: abs_mult)
  also have "\<dots> \<le> 2 * (10 ^ 300 * 1000) + 1" using assms by simp
  also note pow2_1024_bound
  finally show ?thesis by (simp add: py_float_mul_def)
qed

section \<open>Properties of the SRT codec\<close>

lemma format_timestamp_total:
  assumes "\<bar>t\<bar> \<le> 10 ^ 300"
  shows "\<exists>s. format_timestamp t = Inr s"
  by (simp add: format_timestamp_def py_float_mul_finite [OF assms])

lemma srt_entries_total:
  assumes "\<forall>seg \<in> set segments. \<bar>fst seg\<bar> \<le> 10 ^ 300 \<and> \<bar>fst (snd seg)\<bar> \<le> 10 ^ 300"
  shows "\<exists>out. srt_entries idx segments = Inr out"
  using assms
proof (induction segments arbitrary: idx)
  case Nil
  then show ?case by simp
next
  case (Cons seg rest)
  obtain st en tx where seg: "seg = (st, en, tx)" by (cases seg) auto
  from Cons.prems seg have "\<bar>st\<bar> \<le> 10 ^ 300" "\<bar>en\<bar> \<le> 10 ^ 300" by simp_all
  then obtain s1 s2 where "format_timestamp st = Inr s1" "format_timestamp en = Inr s2"
    using format_timestamp_total by blast
  then have "\<exists>entry. srt_entry idx seg = Inr entry" by (simp add: srt_entry_def seg)
  moreover from Cons have "\<exists>out. srt_entries (Suc idx) rest = Inr out" by simp
  ultimately show ?case by auto
qed

lemma py_float_mul_in_range:
  assumes "0 \<le> x" and "x \<le> 10 ^ 300"
  shows "py_float_mul x 1000 = Some (round_double (x * 1000))"
    and "0 \<le> round_double (x * 1000)"
proof -
  have nn: "0 \<le> x * 1000" using assms(1) by simp
  then show "0 \<le> round_double (x * 1000)" by (rule round_double_nonneg)
  show "py_float_mul x 1000 = Some (round_double (x * 1000))"
    using assms by (intro py_float_mul_finite) simp
qed

lemma hours_bounds:
  fixes T :: int
  assumes "0 \<le> T" and "T < 360000"
  shows "0 \<le> T div 3600" and "T div 3600 < 100" and "T div 3600 * 3600 \<le> T"
  using assms by simp_all

lemma minutes_bounds:
  fixes T :: int
  shows "0 \<le> T mod 3600" and "T mod 3600 < 3600"
    and "0 \<le> T mod 3600 div 60" and "T mod 3600 div 60 < 60"
    and "T mod 3600 div 60 * 60 \<le> T mod 3600"
  by simp_all

lemma seconds_bounds:
  fixes T :: int
  shows "0 \<le> T mod 60" and "T mod 60 < 60"
  by simp_all

lemma format_timestamp_in_range:
  assumes "0 \<le> t" and "t < 360000"
  shows "format_timestamp t = Inr (hh_mm_ss_mmm (nat \<lfloor>t\<rfloor>) (nat \<lfloor>round_double (t * 1000)\<rfloor>))"
proof -
  let ?T = "\<lfloor>t\<rfloor>" and ?p = "round_double (t * 1000)"
  have T: "0 \<le> ?T" "?T < 360000" using assms by (simp_all add: floor_less_iff)
  have mul: "py_float_mul t 1000 = Some ?p" and p0: "0 \<le> ?p"
    using py_float_mul_in_range [of t] assms by simp_all
  have p53: "(2::int) ^ 53 = 9007199254740992" by simp
  note hb = hours_bounds [OF T]
  note mb = minutes_bounds(1,2) [of ?T]
  note mdb = minutes_bounds(3,4,5) [of ?T]
  note sb = seconds_bounds [of ?T]
  have "?T div 3600 * 3600 < 2 ^ 53" unfolding p53 using hb(3) T(2) by linarith
  with assms(1) have "py_float_floordiv t (of_int 3600) = of_int (?T div 3600)"
    by (intro py_float_floordiv_nonneg) simp_all
  then have hours: "py_float_floordiv t 3600 = of_int (?T div 3600)" by simp
  have r: "py_float_rem t 3600 = fmod t 3600"
    using py_float_rem_nonneg [of t 3600] assms(1) by simp
  have rb: "0 \<le> fmod t 3600" "\<lfloor>fmod t 3600\<rfloor> = ?T mod 3600"
    using fmod_nonneg_bounds [of t 3600] assms(1) by simp_all
  have "?T mod 3600 div 60 * 60 < 2 ^ 53" unfolding p53 using mdb(3) mb(2) by linarith
  then have "\<lfloor>fmod t 3600\<rfloor> div 60 * 60 < 2 ^ 53" by (simp only: rb)
  with rb(1) have "py_float_floordiv (fmod t 3600) (of_int 60) = of_int (\<lfloor>fmod t 3600\<rfloor> div 60)"
    by (intro py_float_floordiv_nonneg) simp_all
  then have minutes: "py_float_floordiv (py_float_rem t 3600) 60 = of_int (?T mod 3600 div 60)"
    by (simp add: r rb)
  have seconds: "py_int (py_float_rem t 60) = ?T mod 60"
    using py_float_rem_nonneg [of t 60] fmod_nonneg_bounds [of t 60] assms(1)
    by (simp add: py_int_def)
  have millis: "py_int (py_float_rem ?p 1000) = \<lfloor>?p\<rfloor> mod 1000"
    using py_float_rem_nonneg [of ?p 1000] fmod_nonneg_bounds [of ?p 1000] p0
    by (simp add: py_int_def)
  have h2: "format_int_zero 2 (?T div 3600) = two_digits (nat ?T div 3600)"
    using format_two_digits [OF hb(1,2)] T(1) by (simp add: nat_div_distrib)
  have "?T mod 3600 div 60 < 100" using mdb(2) by linarith
  from format_two_digits [OF mdb(1) this]
  have m2: "format_int_zero 2 (?T mod 3600 div 60) = two_digits (nat ?T mod 3600 div 60)"
    using T(1) by (simp add: nat_div_distrib nat_mod_distrib)
  have "?T mod 60 < 100" using sb(2) by linarith
  from format_two_digits [OF sb(1) this]
  have s2: "format_int_zero 2 (?T mod 60) = two_digits (nat ?T mod 60)"
    using T(1) by (simp add: nat_mod_distrib)
  have ms3: "format_int_zero 3 (\<lfloor>?p\<rfloor> mod 1000) = three_digits (nat \<lfloor>?p\<rfloor> mod 1000)"
  proof -
    have "0 \<le> \<lfloor>?p\<rfloor>" using p0 by simp
    then show ?thesis by (simp add: format_three_digits nat_mod_distrib)
  qed
  show ?thesis
    unfolding format_timestamp_def hh_mm_ss_mmm_def
    by (simp add: mul hours minutes seconds millis py_int_of_int h2 m2 s2 ms3)
qed

lemma double_3725_4: "round_double (37254 / 10) = 8192241236233421 / 2199023255552"
  using round_double_eqI [of "37254 / 10" 11 8192241236233421] by simp

lemma double_3725_4_ms: "round_double (8192241236233421 / 2199023255552 * 1000) = 3725400"
  using round_double_eqI [of "8192241236233421 / 2199023255552 * 1000" 21 8000235582259200] by simp

lemma timestamp_3725_4: "format_timestamp (round_double (37254 / 10)) = Inr ''01:02:05,400''"
proof -
  have "format_timestamp (8192241236233421 / 2199023255552) =
      Inr (hh_mm_ss_mmm (nat \<lfloor>8192241236233421 / 2199023255552 :: rat\<rfloor>)
             (nat \<lfloor>round_double (8192241236233421 / 2199023255552 * 1000)\<rfloor>))"
    by (rule format_timestamp_in_range) simp_all
  moreover have "\<lfloor>8192241236233421 / 2199023255552 :: rat\<rfloor> = 3725"
    by (rule floor_unique) simp_all
  ultimately show ?thesis
    unfolding double_3725_4 double_3725_4_ms
    by (simp add: hh_mm_ss_mmm_def two_digits_def three_digits_def digit_char_def)
qed

lemma format_timestamp_millis:
  assumes "0 \<le> t" and "t < 360000" and "t * 1000 = of_int k"
  shows "format_timestamp t = Inr (hh_mm_ss_mmm (nat \<lfloor>t\<rfloor>) (nat k))"
proof -
  have "(of_int k :: rat) < of_int 360000000" using assms(2,3) by simp
  then have "k < 360000000" by (simp only: of_int_less_iff)
  moreover have "(0::rat) \<le> of_int k" using assms(1,3) by simp
  then have "0 \<le> k" by (simp only: of_int_0_le_iff)
  ultimately have "\<bar>k\<bar> < 2 ^ 53" by simp
  then have "round_double (t * 1000) = of_int k"
    unfolding assms(3) by (rule round_double_of_int)
  then show ?thesis
    using format_timestamp_in_range [OF assms(1,2)] by simp
qed

lemma format_timestamp_2: "format_timestamp 2 = Inr ''00:00:02,000''"
  using format_timestamp_millis [of 2 2000]
  by (simp add: hh_mm_ss_mmm_def two_digits_def three_digits_def digit_char_def)

lemma format_timestamp_1: "format_timestamp 1 = Inr ''00:00:01,000''"
  using format_timestamp_millis [of 1 1000]
  by (simp add: hh_mm_ss_mmm_def two_digits_def three_digits_def digit_char_def)

lemma save_srt_reversed:
  "save_srt_segments [(2, 1, ''x'')] =
     Inr (''1'' @ newline @ ''00:00:02,000 --> 00:00:01,000'' @ newline @ ''x'' @ newline @ newline)"
  by (simp add: save_srt_segments_def srt_entry_def format_timestamp_2 format_timestamp_1
      digits_small digit_char_def)

lemma format_timestamp_100h: "format_timestamp 360000 = Inr ''100:00:00,000''"
proof -
  have p53: "(2::int) ^ 53 = 9007199254740992" by simp
  have mul: "py_float_mul 360000 1000 = Some 360000000"
    using py_float_mul_finite [of 360000] round_double_of_int [of 360000000] by simp
  have hours: "py_float_floordiv 360000 3600 = 100"
    using py_float_floordiv_nonneg [of 360000 3600] by simp
  have rem1: "py_float_rem 360000 3600 = 0"
    using py_float_rem_nonneg [of 360000 3600] fmod_nonneg [of 360000 3600] by simp
  have minutes: "py_float_floordiv 0 60 = 0"
    using py_float_floordiv_nonneg [of 0 60] by simp
  have rem2: "py_float_rem 360000 60 = 0"
    using py_float_rem_nonneg [of 360000 60] fmod_nonneg [of 360000 60] by simp
  have rem3: "py_float_rem 360000000 1000 = 0"
    using py_float_rem_nonneg [of 360000000 1000] fmod_nonneg [of 360000000 1000] by simp
  have d100: "digits 100 = ''100''"
    using digits_three [of 100] by (simp add: digit_char_def)
  have d0: "digits 0 = ''0''"
    using digits_small [of 0] by (simp add: digit_char_def)
  show ?thesis
    by (simp add: format_timestamp_def mul hours rem1 minutes rem2 rem3 py_int_def
        format_int_zero_def zfill_def d100 d0 numeral_3_eq_3 numeral_2_eq_2)
qed

lemma format_timestamp_0: "format_timestamp 0 = Inr ''00:00:00,000''"
  using format_timestamp_millis [of 0 0]
  by (simp add: hh_mm_ss_mmm_def two_digits_def three_digits_def digit_char_def)

lemma format_timestamp_3_2: "format_timestamp (3 / 2) = Inr ''00:00:01,500''"
proof -
  have "\<lfloor>3 / 2 :: rat\<rfloor> = 1" by (rule floor_unique) simp_all
  then show ?thesis
    using format_timestamp_millis [of "3 / 2" 1500]
    by (simp add: hh_mm_ss_mmm_def two_digits_def three_digits_def digit_char_def)
qed

lemma srt_entries_error: "srt_entries idx segments = Inl e \<Longrightarrow> e = ValueError"
proof (induction segments arbitrary: idx)
  case Nil
  then show ?case by simp
next
  case (Cons seg rest)
  obtain st en tx where seg: "seg = (st, en, tx)" by (cases seg) auto
  have ts: "format_timestamp u = Inl e' \<Longrightarrow> e' = ValueError" for u e'
    by (auto simp: format_timestamp_def split: option.splits)
  have "srt_entry idx seg = Inl e' \<Longrightarrow> e' = ValueError" for e'
    using ts by (auto simp: srt_entry_def seg split: sum.splits)
  with Cons show ?case by (auto split: sum.splits)
qed

lemma srt_entry_in_range:
  assumes "0 \<le> start" and "start < 360000" and "0 \<le> end" and "end < 360000"
  shows "srt_entry idx (start, end, text) =
     Inr (digits idx @ newline @
          hh_mm_ss_mmm (nat \<lfloor>start\<rfloor>) (nat \<lfloor>round_double (start * 1000)\<rfloor>) @ '' --> '' @
          hh_mm_ss_mmm (nat \<lfloor>end\<rfloor>) (nat \<lfloor>round_double (end * 1000)\<rfloor>) @
          newline @ text @ newline @ newline)"
  by (simp add: srt_entry_def format_timestamp_in_range [OF assms(1,2)]
      format_timestamp_in_range [OF assms(3,4)])

lemma hh_mm_ss_mmm_length: "length (hh_mm_ss_mmm secs millis) = 12"
  by (simp add: hh_mm_ss_mmm_def two_digits_def three_digits_def)

lemma save_srt_100h:
  "save_srt_segments [(360000, 360000, ''x'')] =
     Inr (''1'' @ newline @ ''100:00:00,000 --> 100:00:00,000'' @ newline @ ''x'' @ newline @ newline)"
  by (simp add: save_srt_segments_def srt_entry_def format_timestamp_100h digits_small digit_char_def)

text \<open>
  C1, as the code has it. For a segment whose start and end lie in the range from 0 to below
  360000 seconds (100 hours), the entry written is the index line, the timestamp line
  \<open>HH:MM:SS,mmm --> HH:MM:SS,mmm\<close>, the text and a blank line. Each timestamp has twelve
  characters: two digits each for the hours, the minutes and the seconds of the whole
  seconds \<open>\<lfloor>t\<rfloor>\<close>, and three digits for the milliseconds, which are the integer part (a
  truncation, not a rounding) of the double-precision product \<open>t * 1000\<close>, modulo 1000.
  For the double nearest to 3725.4 the timestamp is \<open>01:02:05,400\<close>.
\<close>

theorem srt_timestamp_format:
  assumes "0 \<le> start" and "start < 360000" and "0 \<le> end" and "end < 360000"
  shows "srt_entry idx (start, end, text) =
           Inr (digits idx @ newline @
                hh_mm_ss_mmm (nat \<lfloor>start\<rfloor>) (nat \<lfloor>round_double (start * 1000)\<rfloor>) @ '' --> '' @
                hh_mm_ss_mmm (nat \<lfloor>end\<rfloor>) (nat \<lfloor>round_double (end * 1000)\<rfloor>) @
                newline @ text @ newline @ newline) \<and>
         format_timestamp start =
           Inr (hh_mm_ss_mmm (nat \<lfloor>start\<rfloor>) (nat \<lfloor>round_double (start * 1000)\<rfloor>)) \<and>
         length (hh_mm_ss_mmm (nat \<lfloor>start\<rfloor>) (nat \<lfloor>round_double (start * 1000)\<rfloor>)) = 12 \<and>
         format_timestamp (round_double (37254 / 10)) = Inr ''01:02:05,400''"
  using srt_entry_in_range [OF assms] format_timestamp_in_range [OF assms(1,2)]
    hh_mm_ss_mmm_length timestamp_3725_4
  by simp

theorem srt_timestamp_format_witness:
  "(0::rat) \<le> 3 / 2 \<and> (3 / 2 :: rat) < 360000 \<and> (0::rat) \<le> 2 \<and> (2::rat) < 360000 \<and>
   srt_entry 7 (3 / 2, 2, ''hi'') =
     Inr (''7'' @ newline @ ''00:00:01,500 --> 00:00:02,000'' @ newline @ ''hi'' @ newline @ newline) \<and>
   format_timestamp (3 / 2) = Inr ''00:00:01,500''"
proof -
  have a: "(0::rat) \<le> 3 / 2" "(3 / 2 :: rat) < 360000" "(0::rat) \<le> 2" "(2::rat) < 360000"
    by simp_all
  have f: "\<lfloor>3 / 2 :: rat\<rfloor> = 1" by (rule floor_unique) simp_all
  have r1: "round_double 1500 = 1500" using round_double_of_int [of 1500] by simp
  have r2: "round_double 2000 = 2000" using round_double_of_int [of 2000] by simp
  show ?thesis
    using srt_timestamp_format [OF a, of 7 "''hi''"]
    by (simp add: f r1 r2 hh_mm_ss_mmm_def two_digits_def three_digits_def digit_char_def
        digits_small)
qed

text \<open>
  The claim as stated fails for a segment that starts at 100 hours: the hour field has
  three digits.
\<close>

theorem srt_timestamp_three_digit_hours:
  "save_srt_segments [(360000, 360000, ''x'')] =
     Inr (''1'' @ newline @ ''100:00:00,000 --> 100:00:00,000'' @ newline @ ''x'' @ newline @ newline)"
  by (rule save_srt_100h)

text \<open>
  C7, as the code has it. \<open>save_srt_segments\<close> does not compare the end of a segment with
  its start. It writes every list of segments whose times are at most \<open>10 ^ 300\<close> in
  magnitude, whatever the order of start and end; the only exception it can raise is the
  ValueError of a time whose product with 1000 overflows.
\<close>

theorem save_srt_segments_no_order_check:
  "((\<forall>seg \<in> set segments. \<bar>fst seg\<bar> \<le> 10 ^ 300 \<and> \<bar>fst (snd seg)\<bar> \<le> 10 ^ 300) \<longrightarrow>
      (\<exists>out. save_srt_segments segments = Inr out)) \<and>
   (\<forall>e. save_srt_segments segments = Inl e \<longrightarrow> e = ValueError)"
  using srt_entries_total [of segments 1] srt_entries_error [of 1 segments]
  by (simp add: save_srt_segments_def)

theorem save_srt_segments_no_order_check_witness:
  "\<bar>2 :: rat\<bar> \<le> 10 ^ 300 \<and> \<bar>1 :: rat\<bar> \<le> 10 ^ 300 \<and> (1::rat) < 2 \<and>
   (\<exists>out. save_srt_segments [(2, 1, ''x'')] = Inr out) \<and>
   save_srt_segments [(2 ^ 1020, 2 ^ 1020, ''x'')] = Inl ValueError"
proof -
  have big: "\<exists>e. save_srt_segments [(2 ^ 1020, 2 ^ 1020, ''x'')] = Inl e"
  proof -
    have "round_double (2 ^ 1020 * 1000) = 1000 * 2 ^ 1020"
      using round_double_eqI [of "2 ^ 1020 * 1000" 1029 "1000 * 2 ^ 43"] by simp
    then have "py_float_mul (2 ^ 1020) 1000 = None" by (simp add: py_float_mul_def)
    then show ?thesis by (simp add: save_srt_segments_def srt_entry_def format_timestamp_def)
  qed
  show ?thesis
    using big save_srt_segments_no_order_check [of "[(2, 1, ''x'')]"]
      save_srt_segments_no_order_check [of "[(2 ^ 1020, 2 ^ 1020, ''x'')]"]
    by auto
qed

text \<open>
  The claim as stated fails: a segment that ends before it starts is encoded, and no error
  is raised.
\<close>

theorem save_srt_segments_end_before_start:
  "save_srt_segments [(2, 1, ''x'')] =
     Inr (''1'' @ newline @ ''00:00:02,000 --> 00:00:01,000'' @ newline @ ''x'' @ newline @ newline)"
  by (rule save_srt_reversed)

section \<open>Properties of the translation stage\<close>

subsection \<open>The source language code\<close>

lemma split_sentences_generate:
  "split_sentences cfg (libs\<lparr>generate := g\<rparr>) text = split_sentences cfg libs text"
  by (simp add: split_sentences_def)

lemma translate_segment_generate:
  "translate_segment cfg (libs\<lparr>generate := g\<rparr>) engine target_lang max_length text =
     translate_segment cfg libs engine target_lang max_length text"
  by (simp add: translate_segment_def split_sentences_generate)

lemma translate_segments_generate:
  "translate_segments cfg (libs\<lparr>generate := g\<rparr>) engine target_lang max_length segments =
     translate_segments cfg libs engine target_lang max_length segments"
  by (induction segments) (auto simp: translate_segment_generate)

lemma map_source_lang_cases:
  "map_source_lang code_map source_lang =
     (case code_map source_lang of
        Some mapped \<Rightarrow> if mapped = [] then ''eng_Latn'' else mapped
      | None \<Rightarrow> if source_lang = [] then ''eng_Latn'' else source_lang)"
  by (simp add: map_source_lang_def dict_get_def split: option.split)

lemma translate_uses_mapped_code:
  "translate cfg libs segments source_lang target_lang =
     translate cfg
       (libs\<lparr>generate := \<lambda>_. generate libs (map_source_lang (language_code_map cfg) source_lang)\<rparr>)
       segments source_lang target_lang"
  by (simp add: translate_def translate_segments_generate split: option.split)

text \<open>
  C6, as the code has it. The source language code that \<open>translate\<close> hands to the engine is
  the table's entry for the code, or the code itself when the table has no entry for it
  (\<^verbatim>\<open>dict.get\<close> with the code as its default), and \<open>eng_Latn\<close> exactly when that string is
  empty: an unmapped code that is not empty passes through unchanged. The engine of
  \<open>translate\<close> is used at no other source language.
\<close>

theorem translate_source_lang_fallback:
  "map_source_lang code_map source_lang =
     (case code_map source_lang of
        Some mapped \<Rightarrow> if mapped = [] then ''eng_Latn'' else mapped
      | None \<Rightarrow> if source_lang = [] then ''eng_Latn'' else source_lang) \<and>
   translate cfg libs segments source_lang target_lang =
     translate cfg
       (libs\<lparr>generate := \<lambda>_. generate libs (map_source_lang (language_code_map cfg) source_lang)\<rparr>)
       segments source_lang target_lang"
  using map_source_lang_cases translate_uses_mapped_code by blast

text \<open>
  The claim as stated fails: the code \<open>xx\<close> has no entry in the table, and the source
  language used is \<open>xx\<close>, not \<open>eng_Latn\<close>.
\<close>

theorem unmapped_source_lang_passes_through:
  "[''en'' \<mapsto> ''eng_Latn''] ''xx'' = None \<and>
   map_source_lang [''en'' \<mapsto> ''eng_Latn''] ''xx'' = ''xx''"
  by (simp add: map_source_lang_def dict_get_def)

subsection \<open>Short texts\<close>

lemma translate_segment_short:
  "length (py_strip text) < 3 \<Longrightarrow>
     translate_segment cfg libs engine target_lang max_length text = ([], Inr [])"
  by (simp add: translate_segment_def)

text \<open>
  C4. A segment whose text, stripped of surrounding whitespace, has fewer than three
  characters (the empty text included) is translated to the empty string: the engine is
  not called (the list of its calls is empty) and nothing is raised.
\<close>

theorem translate_segment_short_text:
  assumes "length (py_strip text) < 3"
  shows "translate_segment cfg libs engine target_lang max_length text = ([], Inr [])"
  using assms by (rule translate_segment_short)

theorem translate_segment_short_text_witness:
  "length (py_strip '' a '') < 3 \<and>
   translate_segment
     \<lparr>max_line_length = 40, max_lines = 2, use_regex_splitter = False, language_code_map = Map.empty\<rparr>
     \<lparr>re_split = (\<lambda>s. [s]), sent_tokenize = (\<lambda>s. Inr [s]), from_pretrained = None,
      generate = (\<lambda>src tgt n s. Inr (rev s))\<rparr>
     (\<lambda>tgt n s. Inr (rev s)) ''tur_Latn'' 512 '' a '' = ([], Inr [])"
proof -
  have short: "length (py_strip '' a '') < 3"
    by (simp add: py_strip_def isspace_def)
  show ?thesis
    using short translate_segment_short_text [OF short] by simp
qed

subsection \<open>Truncation and capping of sentences\<close>

lemma translate_sentences_total:
  "(\<And>s. \<exists>t. engine s = Inr t) \<Longrightarrow> \<exists>ts. translate_sentences engine ss = (ss, Inr ts)"
proof (induction ss)
  case Nil
  then show ?case by simp
next
  case (Cons s ss)
  from Cons obtain ts where "translate_sentences engine ss = (ss, Inr ts)" by blast
  moreover from Cons.prems obtain t where "engine s = Inr t" by blast
  ultimately show ?case by simp
qed

lemma py_take_nonneg: "0 \<le> n \<Longrightarrow> py_take n = take (nat n)"
  by (rule ext) (simp add: py_take_def)

lemma limit_sentences_nonneg:
  assumes "0 \<le> max_line_length cfg" and "0 \<le> max_lines cfg"
  shows "limit_sentences cfg text sentences =
     (if nat (max_line_length cfg) < length text
      then take (nat (max_lines cfg)) (map (take (nat (max_line_length cfg))) sentences)
      else take (nat (max_lines cfg)) sentences)"
proof -
  have "(max_line_length cfg < int (length text)) = (nat (max_line_length cfg) < length text)"
    using assms(1) by linarith
  then show ?thesis
    using assms by (simp add: limit_sentences_def py_take_nonneg)
qed

lemma limit_sentences_length:
  assumes "0 \<le> max_line_length cfg" and "0 \<le> max_lines cfg"
  shows "length (limit_sentences cfg text sentences) \<le> nat (max_lines cfg)"
  using assms by (simp add: limit_sentences_nonneg)

lemma limit_sentences_truncated:
  assumes "0 \<le> max_line_length cfg" and "0 \<le> max_lines cfg"
    and "nat (max_line_length cfg) < length text"
    and "s \<in> set (limit_sentences cfg text sentences)"
  shows "length s \<le> nat (max_line_length cfg)"
  using assms by (auto simp: limit_sentences_nonneg dest!: in_set_takeD)

lemma translate_segment_long:
  assumes "\<not> length (py_strip text) < 3"
    and "split_sentences cfg libs text = Inr sentences"
  shows "translate_segment cfg libs engine target_lang max_length text =
     (case translate_sentences (engine target_lang max_length) (limit_sentences cfg text sentences) of
        (calls, Inl e) \<Rightarrow> (calls, Inl e)
      | (calls, Inr translated) \<Rightarrow> (calls, Inr (join_space translated)))"
proof -
  from assms(1) have "text \<noteq> []" by (auto simp: py_strip_def)
  with assms show ?thesis by (simp add: translate_segment_def)
qed

lemma translate_segment_calls:
  assumes "\<not> length (py_strip text) < 3"
    and "split_sentences cfg libs text = Inr sentences"
    and "\<And>s. \<exists>t. engine target_lang max_length s = Inr t"
  shows "fst (translate_segment cfg libs engine target_lang max_length text) =
           limit_sentences cfg text sentences"
proof -
  from translate_sentences_total [of "engine target_lang max_length", OF assms(3)]
  obtain ts where
    "translate_sentences (engine target_lang max_length) (limit_sentences cfg text sentences) =
       (limit_sentences cfg text sentences, Inr ts)"
    by blast
  then show ?thesis by (simp add: translate_segment_long [OF assms(1,2)])
qed

text \<open>
  C2. For a segment whose text passes the short-text check and is split into \<open>sentences\<close>,
  with limits that are not negative: the sentences retained are, when the untrimmed text
  is longer than \<open>max_line_length\<close>, the first \<open>max_lines\<close> of the sentences each cut to
  its first \<open>max_line_length\<close> characters, and otherwise the first \<open>max_lines\<close> sentences
  uncut. The loop of \<open>translate_segment\<close> runs over exactly these, and an engine that does
  not raise is called with exactly these, in order. So at most \<open>max_lines\<close> sentences are
  retained, and in the first case none is longer than \<open>max_line_length\<close>.
\<close>

theorem translate_segment_truncation:
  assumes "0 \<le> max_line_length cfg" and "0 \<le> max_lines cfg"
    and "\<not> length (py_strip text) < 3"
    and "split_sentences cfg libs text = Inr sentences"
  shows
    "let retained =
       (if nat (max_line_length cfg) < length text
        then take (nat (max_lines cfg)) (map (take (nat (max_line_length cfg))) sentences)
        else take (nat (max_lines cfg)) sentences)
     in translate_segment cfg libs engine target_lang max_length text =
          (case translate_sentences (engine target_lang max_length) retained of
             (calls, Inl e) \<Rightarrow> (calls, Inl e)
           | (calls, Inr translated) \<Rightarrow> (calls, Inr (join_space translated))) \<and>
        ((\<forall>s. \<exists>t. engine target_lang max_length s = Inr t) \<longrightarrow>
           fst (translate_segment cfg libs engine target_lang max_length text) = retained) \<and>
        length retained \<le> nat (max_lines cfg) \<and>
        (nat (max_line_length cfg) < length text \<longrightarrow>
           (\<forall>s \<in> set retained. length s \<le> nat (max_line_length cfg)))"
proof -
  note eq = limit_sentences_nonneg [OF assms(1,2), of "text" "sentences", symmetric]
  have 1: "translate_segment cfg libs engine target_lang max_length text =
     (case translate_sentences (engine target_lang max_length) (limit_sentences cfg text sentences) of
        (calls, Inl e) \<Rightarrow> (calls, Inl e)
      | (calls, Inr translated) \<Rightarrow> (calls, Inr (join_space translated)))"
    using assms(3,4) by (rule translate_segment_long)
  have 2: "(\<forall>s. \<exists>t. engine target_lang max_length s = Inr t) \<longrightarrow>
     fst (translate_segment cfg libs engine target_lang max_length text) =
       limit_sentences cfg text sentences"
    using translate_segment_calls [OF assms(3,4)] by blast
  have 3: "length (limit_sentences cfg text sentences) \<le> nat (max_lines cfg)"
    using assms(1,2) by (rule limit_sentences_length)
  have 4: "nat (max_line_length cfg) < length text \<longrightarrow>
     (\<forall>s \<in> set (limit_sentences cfg text sentences). length s \<le> nat (max_line_length cfg))"
    using limit_sentences_truncated [OF assms(1,2)] by blast
  from 1 2 3 4 show ?thesis
    unfolding Let_def eq by blast
qed

theorem translate_segment_truncation_witness:
  "(0::int) \<le> 40 \<and> (0::int) \<le> 2 \<and>
   length ''The quarterly results were very good then. Hi. Ok.'' = 50 \<and>
   \<not> length (py_strip ''The quarterly results were very good then. Hi. Ok.'') < 3 \<and>
   split_sentences
     \<lparr>max_line_length = 40, max_lines = 2, use_regex_splitter = False, language_code_map = Map.empty\<rparr>
     \<lparr>re_split = (\<lambda>s. [s]),
      sent_tokenize = (\<lambda>s. Inr [''The quarterly results were very good then.'', ''Hi.'', ''Ok.'']),
      from_pretrained = None, generate = (\<lambda>src tgt n s. Inr s)\<rparr>
     ''The quarterly results were very good then. Hi. Ok.'' =
       Inr [''The quarterly results were very good then.'', ''Hi.'', ''Ok.''] \<and>
   translate_segment
     \<lparr>max_line_length = 40, max_lines = 2, use_regex_splitter = False, language_code_map = Map.empty\<rparr>
     \<lparr>re_split = (\<lambda>s. [s]),
      sent_tokenize = (\<lambda>s. Inr [''The quarterly results were very good then.'', ''Hi.'', ''Ok.'']),
      from_pretrained = None, generate = (\<lambda>src tgt n s. Inr s)\<rparr>
     (\<lambda>tgt n s. Inr s) ''tur_Latn'' 512 ''The quarterly results were very good then. Hi. Ok.'' =
       ([''The quarterly results were very good the'', ''Hi.''],
        Inr ''The quarterly results were very good the Hi.'')"
proof -
  let ?cfg = "\<lparr>max_line_length = 40, max_lines = 2, use_regex_splitter = False,
                language_code_map = Map.empty\<rparr>"
  let ?libs = "\<lparr>re_split = (\<lambda>s. [s]),
      sent_tokenize = (\<lambda>s. Inr [''The quarterly results were very good then.'', ''Hi.'', ''Ok.'']),
      from_pretrained = None, generate = (\<lambda>src tgt n s. Inr s)\<rparr>"
  let ?text = "''The quarterly results were very good then. Hi. Ok.''"
  have a: "0 \<le> max_line_length ?cfg" by simp
  have b: "0 \<le> max_lines ?cfg" by simp
  have c: "\<not> length (py_strip ?text) < 3" by (simp add: py_strip_def isspace_def)
  have d: "split_sentences ?cfg ?libs ?text =
     Inr [''The quarterly results were very good then.'', ''Hi.'', ''Ok.'']"
    by (simp add: split_sentences_def)
  show ?thesis
    using c d translate_segment_truncation [OF a b c d, of "\<lambda>tgt n s. Inr s" "''tur_Latn''" 512]
    by (simp add: Let_def)
qed

subsection \<open>The loop over the segments\<close>

lemma translate_segments_nth:
  "translate_segments cfg libs engine target_lang max_length segments = (calls, Inr out) \<Longrightarrow>
     i < length segments \<Longrightarrow>
     fst (out ! i) = fst (segments ! i) \<and> fst (snd (out ! i)) = fst (snd (segments ! i)) \<and>
     (\<exists>c. translate_segment cfg libs engine target_lang max_length (snd (snd (segments ! i))) =
            (c, Inr (snd (snd (out ! i)))))"
proof (induction segments arbitrary: calls out i)
  case Nil
  then show ?case by simp
next
  case (Cons seg rest)
  obtain st en tx where seg: "seg = (st, en, tx)" by (cases seg) auto
  from Cons.prems(1) seg obtain c1 t1 c2 out2 where
    h: "translate_segment cfg libs engine target_lang max_length tx = (c1, Inr t1)"
    "translate_segments cfg libs engine target_lang max_length rest = (c2, Inr out2)"
    "out = (st, en, t1) # out2"
    by (auto split: prod.splits sum.splits)
  show ?case
  proof (cases i)
    case 0
    with h seg show ?thesis by simp
  next
    case (Suc j)
    with Cons.prems(2) have "j < length rest" by simp
    from Cons.IH [OF h(2) this] Suc h(3) show ?thesis by simp
  qed
qed

lemma translate_segments_length:
  "translate_segments cfg libs engine target_lang max_length segments = (calls, Inr out) \<Longrightarrow>
     length out = length segments"
proof (induction segments arbitrary: calls out)
  case Nil
  then show ?case by simp
next
  case (Cons seg rest)
  obtain st en tx where seg: "seg = (st, en, tx)" by (cases seg) auto
  from Cons.prems seg obtain t1 c2 out2 where
    "translate_segments cfg libs engine target_lang max_length rest = (c2, Inr out2)"
    "out = (st, en, t1) # out2"
    by (auto split: prod.splits sum.splits)
  with Cons.IH [of c2 out2] show ?case by simp
qed

lemma translate_segment_total:
  assumes "\<And>text. \<exists>ss. split_sentences cfg libs text = Inr ss"
    and "\<And>s. \<exists>t. engine target_lang max_length s = Inr t"
  shows "\<exists>calls t. translate_segment cfg libs engine target_lang max_length text = (calls, Inr t)"
proof (cases "text = [] \<or> length (py_strip text) < 3")
  case True
  then show ?thesis by (simp add: translate_segment_def)
next
  case False
  from assms(1) obtain ss where ss: "split_sentences cfg libs text = Inr ss" by blast
  from translate_sentences_total [of "engine target_lang max_length", OF assms(2)]
  obtain ts where
    "translate_sentences (engine target_lang max_length) (limit_sentences cfg text ss) =
       (limit_sentences cfg text ss, Inr ts)"
    by blast
  with False ss show ?thesis by (simp add: translate_segment_def)
qed

lemma translate_segments_total:
  assumes "\<And>text. \<exists>ss. split_sentences cfg libs text = Inr ss"
    and "\<And>s. \<exists>t. engine target_lang max_length s = Inr t"
  shows "\<exists>calls out. translate_segments cfg libs engine target_lang max_length segments = (calls, Inr out)"
proof (induction segments)
  case Nil
  then show ?case by simp
next
  case (Cons seg rest)
  obtain st en tx where seg: "seg = (st, en, tx)" by (cases seg) auto
  from translate_segment_total [of cfg libs engine target_lang max_length tx] assms obtain c t where
    "translate_segment cfg libs engine target_lang max_length tx = (c, Inr t)" by blast
  moreover from Cons obtain c' out where
    "translate_segments cfg libs engine target_lang max_length rest = (c', Inr out)" by blast
  ultimately show ?case using seg by simp
qed

lemma translate_files:
  "translate cfg libs segments source_lang target_lang = (calls, Inr (srt, txt)) \<Longrightarrow>
     \<exists>out. translate_segments cfg libs
              (generate libs (map_source_lang (language_code_map cfg) source_lang))
              target_lang 512 segments = (calls, Inr out) \<and>
           save_srt_segments out = Inr srt \<and> save_txt_segments out = txt"
  by (auto simp: translate_def split: option.splits prod.splits sum.splits)

text \<open>
  C5. Whenever the loop of \<open>translate\<close> over the segments ends without an exception, the
  translated segments are as many as the input segments and in the same order: the
  \<open>i\<close>-th has the start and the end of the \<open>i\<close>-th input segment, and for its text what
  \<open>translate_segment\<close> returns for the \<open>i\<close>-th input text. The loop does end so when
  neither the sentence splitter nor the engine raises. The two files \<open>translate\<close> writes are
  the SRT and the TXT encodings of that list.
\<close>

theorem translate_preserves_segments:
  "(\<forall>calls out.
      translate_segments cfg libs engine target_lang max_length segments = (calls, Inr out) \<longrightarrow>
      length out = length segments \<and>
      (\<forall>i < length segments.
         fst (out ! i) = fst (segments ! i) \<and> fst (snd (out ! i)) = fst (snd (segments ! i)) \<and>
         (\<exists>c. translate_segment cfg libs engine target_lang max_length (snd (snd (segments ! i))) =
                (c, Inr (snd (snd (out ! i))))))) \<and>
   ((\<forall>text. \<exists>ss. split_sentences cfg libs text = Inr ss) \<and>
    (\<forall>s. \<exists>t. engine target_lang max_length s = Inr t) \<longrightarrow>
      (\<exists>calls out.
         translate_segments cfg libs engine target_lang max_length segments = (calls, Inr out))) \<and>
   (\<forall>calls srt txt.
      translate cfg libs segments source_lang target_lang = (calls, Inr (srt, txt)) \<longrightarrow>
      (\<exists>out. translate_segments cfg libs
                (generate libs (map_source_lang (language_code_map cfg) source_lang))
                target_lang 512 segments = (calls, Inr out) \<and>
             save_srt_segments out = Inr srt \<and> save_txt_segments out = txt))"
proof -
  have shape: "\<forall>calls out.
      translate_segments cfg libs engine target_lang max_length segments = (calls, Inr out) \<longrightarrow>
      length out = length segments \<and>
      (\<forall>i < length segments.
         fst (out ! i) = fst (segments ! i) \<and> fst (snd (out ! i)) = fst (snd (segments ! i)) \<and>
         (\<exists>c. translate_segment cfg libs engine target_lang max_length (snd (snd (segments ! i))) =
                (c, Inr (snd (snd (out ! i))))))"
    using translate_segments_length [of cfg libs engine target_lang max_length segments]
      translate_segments_nth [of cfg libs engine target_lang max_length segments]
    by blast
  have total: "(\<forall>text. \<exists>ss. split_sentences cfg libs text = Inr ss) \<and>
    (\<forall>s. \<exists>t. engine target_lang max_length s = Inr t) \<longrightarrow>
      (\<exists>calls out.
         translate_segments cfg libs engine target_lang max_length segments = (calls, Inr out))"
    using translate_segments_total [of cfg libs engine target_lang max_length segments] by blast
  have files: "\<forall>calls srt txt.
      translate cfg libs segments source_lang target_lang = (calls, Inr (srt, txt)) \<longrightarrow>
      (\<exists>out. translate_segments cfg libs
                (generate libs (map_source_lang (language_code_map cfg) source_lang))
                target_lang 512 segments = (calls, Inr out) \<and>
             save_srt_segments out = Inr srt \<and> save_txt_segments out = txt)"
    using translate_files [of cfg libs segments source_lang target_lang] by blast
  from shape total files show ?thesis by (intro conjI)
qed

lemma save_srt_two_segments:
  "save_srt_segments [(0, 1, ''.ereht olleH''), (1, 2, [])] =
     Inr (''1'' @ newline @ ''00:00:00,000 --> 00:00:01,000'' @ newline @ ''.ereht olleH'' @
          newline @ newline @
          ''2'' @ newline @ ''00:00:01,000 --> 00:00:02,000'' @ newline @ newline @ newline)"
  by (simp add: save_srt_segments_def srt_entry_def format_timestamp_0 format_timestamp_1
      format_timestamp_2 digits_small digit_char_def numeral_2_eq_2)

theorem translate_preserves_segments_witness:
  "translate_segments
     \<lparr>max_line_length = 40, max_lines = 2, use_regex_splitter = False, language_code_map = Map.empty\<rparr>
     \<lparr>re_split = (\<lambda>s. [s]), sent_tokenize = (\<lambda>s. Inr [s]), from_pretrained = None,
      generate = (\<lambda>src tgt n s. Inr (rev s))\<rparr>
     (\<lambda>tgt n s. Inr (rev s)) ''tur_Latn'' 512
     [(0, 1, ''Hello there.''), (1, 2, ''a'')] =
       ([''Hello there.''], Inr [(0, 1, ''.ereht olleH''), (1, 2, [])]) \<and>
   length [(0::rat, 1::rat, ''.ereht olleH''), (1, 2, [])] =
     length [(0::rat, 1::rat, ''Hello there.''), (1, 2, ''a'')] \<and>
   (\<forall>text. \<exists>ss.
      split_sentences
        \<lparr>max_line_length = 40, max_lines = 2, use_regex_splitter = False, language_code_map = Map.empty\<rparr>
        \<lparr>re_split = (\<lambda>s. [s]), sent_tokenize = (\<lambda>s. Inr [s]), from_pretrained = None,
         generate = (\<lambda>src tgt n s. Inr (rev s))\<rparr> text = Inr ss) \<and>
   (\<forall>s. \<exists>t. (\<lambda>tgt n s. Inr (rev s)) ''tur_Latn'' (512::nat) s = (Inr t :: error + string)) \<and>
   translate
     \<lparr>max_line_length = 40, max_lines = 2, use_regex_splitter = False, language_code_map = Map.empty\<rparr>
     \<lparr>re_split = (\<lambda>s. [s]), sent_tokenize = (\<lambda>s. Inr [s]), from_pretrained = None,
      generate = (\<lambda>src tgt n s. Inr (rev s))\<rparr>
     [(0, 1, ''Hello there.''), (1, 2, ''a'')] ''en'' ''tur_Latn'' =
       ([''Hello there.''],
        Inr (''1'' @ newline @ ''00:00:00,000 --> 00:00:01,000'' @ newline @ ''.ereht olleH'' @
             newline @ newline @
             ''2'' @ newline @ ''00:00:01,000 --> 00:00:02,000'' @ newline @ newline @ newline,
             ''.ereht olleH'' @ newline @ newline))"
proof -
  let ?cfg = "\<lparr>max_line_length = 40, max_lines = 2, use_regex_splitter = False,
                language_code_map = Map.empty\<rparr>"
  let ?libs = "\<lparr>re_split = (\<lambda>s. [s]), sent_tokenize = (\<lambda>s. Inr [s]), from_pretrained = None,
      generate = (\<lambda>src tgt n s. Inr (rev s))\<rparr>"
  let ?segs = "[(0, 1, ''Hello there.''), (1, 2, ''a'')] :: segment list"
  have run: "translate_segments ?cfg ?libs (\<lambda>tgt n s. Inr (rev s)) ''tur_Latn'' 512 ?segs =
       ([''Hello there.''], Inr [(0, 1, ''.ereht olleH''), (1, 2, [])])"
    by (simp add: translate_segment_def split_sentences_def limit_sentences_def py_take_def
        py_strip_def isspace_def)
  have tr: "translate ?cfg ?libs ?segs ''en'' ''tur_Latn'' =
       ([''Hello there.''],
        Inr (''1'' @ newline @ ''00:00:00,000 --> 00:00:01,000'' @ newline @ ''.ereht olleH'' @
             newline @ newline @
             ''2'' @ newline @ ''00:00:01,000 --> 00:00:02,000'' @ newline @ newline @ newline,
             ''.ereht olleH'' @ newline @ newline))"
    using run save_srt_two_segments
    by (simp add: translate_def map_source_lang_def dict_get_def save_txt_segments_def)
  have split: "\<forall>text. \<exists>ss. split_sentences ?cfg ?libs text = Inr ss"
    by (simp add: split_sentences_def)
  show ?thesis
    using run tr split
      translate_preserves_segments [of ?cfg ?libs "\<lambda>tgt n s. Inr (rev s)" "''tur_Latn''" 512 ?segs "''en''"]
    by simp
qed

section \<open>Properties of the JSON transcript\<close>

lemma those_segments_map: "those_segments (map json_of_segment segments) = Some segments"
  by (induction segments) (auto simp: json_of_segment_def)

lemma load_save_segments:
  "load_segments (save_json_segments segments lang) =
     Inr (JArray (map json_of_segment segments), JString lang)"
  by (simp add: load_segments_def save_json_segments_def getitem_def)

text \<open>
  C3. Loading the file that \<open>save_json_segments\<close> writes for a list of segments and a
  language tag succeeds, and the two values loaded are that list of segments (each a list of
  start, end and text, equal one by one and in order) and that language tag.
\<close>

theorem json_round_trip:
  "\<exists>js jl. load_segments (save_json_segments segments lang) = Inr (js, jl) \<and>
      segments_of_json js = Some segments \<and> string_of_json jl = Some lang"
  by (simp add: load_save_segments those_segments_map)

lemma load_segments_object:
  "load_segments (Parsed (JObject kvs)) =
     (case map_of kvs ''segments'' of
        None \<Rightarrow> Inl (KeyError ''segments'')
      | Some segments \<Rightarrow>
          (case map_of kvs ''lang'' of
             None \<Rightarrow> Inl (KeyError ''lang'')
           | Some lang \<Rightarrow> Inr (segments, lang)))"
  by (simp add: load_segments_def getitem_def split: option.split)

text \<open>
  C8, as the code has it. \<open>load_segments\<close> raises FileNotFoundError for a missing file and
  JSONDecodeError for a file that is not JSON. For a JSON object it raises KeyError when the
  key \<open>segments\<close> or the key \<open>lang\<close> is absent, and otherwise returns the two values as
  they are, of whatever type: it checks no type.
\<close>

theorem load_segments_outcomes:
  "load_segments Missing = Inl FileNotFoundError \<and>
   load_segments Unparsable = Inl JSONDecodeError \<and>
   load_segments (Parsed (JObject kvs)) =
     (case map_of kvs ''segments'' of
        None \<Rightarrow> Inl (KeyError ''segments'')
      | Some segments \<Rightarrow>
          (case map_of kvs ''lang'' of
             None \<Rightarrow> Inl (KeyError ''lang'')
           | Some lang \<Rightarrow> Inr (segments, lang)))"
  using load_segments_object [of kvs] by (simp add: load_segments_def)

text \<open>
  The claim as stated fails: with a number under each key, neither an array of triples
  nor a string, decoding succeeds.
\<close>

theorem load_segments_accepts_wrong_types:
  "load_segments (Parsed (JObject [(''segments'', JNumber 5), (''lang'', JNumber 7)])) =
     Inr (JNumber 5, JNumber 7) \<and>
   segments_of_json (JNumber 5) = None \<and> string_of_json (JNumber 7) = None"
  by (simp add: load_segments_def getitem_def)

section \<open>Properties of the orchestrator\<close>

lemma select_video_file_missing:
  "(video_arg = Some p \<and> p \<noteq> [] \<and> \<not> path_exists fs p) \<or>
     ((video_arg = None \<or> video_arg = Some []) \<and> glob_mp4 fs = []) \<Longrightarrow>
   select_video_file fs video_arg = Inl FileNotFoundError"
  by (auto simp: select_video_file_def)

text \<open>
  C10. The video file is resolved before any stage. When a path is given (a string that is
  not empty) and does not exist, or none is given and the video directory has no MP4
  file, the run ends with FileNotFoundError and no stage has been started, whatever the
  requested steps are.
\<close>

theorem run_pipeline_video_not_found:
  assumes "(video_arg = Some p \<and> p \<noteq> [] \<and> \<not> path_exists fs p) \<or>
     ((video_arg = None \<or> video_arg = Some []) \<and> glob_mp4 fs = [])"
  shows "run_pipeline fs impl config_mode steps mode video_arg w = ([], Inl FileNotFoundError)"
  using select_video_file_missing [OF assms] by (simp add: run_pipeline_def)

theorem run_pipeline_video_not_found_witness:
  "\<not> path_exists \<lparr>path_exists = (\<lambda>p. p = ''a.mp4''), resolve = (\<lambda>p. ''/d/'' @ p), glob_mp4 = []\<rparr> ''b.mp4'' \<and>
   glob_mp4 \<lparr>path_exists = (\<lambda>p. p = ''a.mp4''), resolve = (\<lambda>p. ''/d/'' @ p), glob_mp4 = []\<rparr> = [] \<and>
   run_pipeline
     \<lparr>path_exists = (\<lambda>p. p = ''a.mp4''), resolve = (\<lambda>p. ''/d/'' @ p), glob_mp4 = []\<rparr>
     \<lparr>extract_audio_from_video = (\<lambda>v w. Inr (Suc w)), transcribe_audio = (\<lambda>w. Inr (Suc w)),
      load_and_translate = (\<lambda>w. Inr (Suc w)), add_soft_subs = (\<lambda>v w. Inr (Suc w)),
      add_burned_subs = (\<lambda>v w. Inr (Suc w))\<rparr>
     None [''translate''] None (Some ''b.mp4'') (0::nat) = ([], Inl FileNotFoundError) \<and>
   run_pipeline
     \<lparr>path_exists = (\<lambda>p. p = ''a.mp4''), resolve = (\<lambda>p. ''/d/'' @ p), glob_mp4 = []\<rparr>
     \<lparr>extract_audio_from_video = (\<lambda>v w. Inr (Suc w)), transcribe_audio = (\<lambda>w. Inr (Suc w)),
      load_and_translate = (\<lambda>w. Inr (Suc w)), add_soft_subs = (\<lambda>v w. Inr (Suc w)),
      add_burned_subs = (\<lambda>v w. Inr (Suc w))\<rparr>
     None [''translate''] None None (0::nat) = ([], Inl FileNotFoundError)"
proof -
  let ?fs = "\<lparr>path_exists = (\<lambda>p. p = ''a.mp4''), resolve = (\<lambda>p. ''/d/'' @ p), glob_mp4 = []\<rparr>"
  have a: "(Some ''b.mp4'' = Some ''b.mp4'' \<and> ''b.mp4'' \<noteq> [] \<and> \<not> path_exists ?fs ''b.mp4'') \<or>
     ((Some ''b.mp4'' = None \<or> Some ''b.mp4'' = Some []) \<and> glob_mp4 ?fs = [])"
    by simp
  have b: "(None = Some ''b.mp4'' \<and> ''b.mp4'' \<noteq> [] \<and> \<not> path_exists ?fs ''b.mp4'') \<or>
     (((None :: string option) = None \<or> None = Some []) \<and> glob_mp4 ?fs = [])"
    by simp
  show ?thesis
    using run_pipeline_video_not_found [OF a, where w = "0::nat"]
      run_pipeline_video_not_found [OF b, where w = "0::nat"]
    by simp
qed

lemma run_in_order_append:
  "run_in_order action (xs @ ys) w =
     (case run_in_order action xs w of
        (started, Inl e) \<Rightarrow> (started, Inl e)
      | (started, Inr w') \<Rightarrow>
          (case run_in_order action ys w' of (started', r) \<Rightarrow> (started @ started', r)))"
  by (induction xs arbitrary: w) (auto split: sum.splits prod.splits)

lemma run_step_run_in_order:
  "run_step requested s (action s) (run_in_order action ss w) =
     run_in_order action (ss @ (if requested then [s] else [])) w"
  by (auto simp: run_step_def run_in_order_append split: sum.splits prod.splits)

lemma requested_stages_eq:
  "requested_stages steps =
     (if ''extract'' \<in> set steps then [Extract] else []) @
     (if ''transcribe'' \<in> set steps then [Transcribe] else []) @
     (if ''translate'' \<in> set steps then [Translate] else []) @
     (if ''subtitles'' \<in> set steps then [Subtitles] else [])"
  by (simp add: requested_stages_def stage_name_def)

lemma run_pipeline_run_in_order:
  assumes "select_video_file fs video_arg = Inr video_file"
  shows "run_pipeline fs impl config_mode steps mode video_arg w =
     run_in_order (step_action impl video_file (final_mode mode config_mode))
       (requested_stages steps) w"
proof -
  let ?a = "step_action impl video_file (final_mode mode config_mode)"
  have start: "([], Inr w) = run_in_order ?a [] w" by simp
  show ?thesis
    unfolding run_pipeline_def requested_stages_eq using assms
    apply (simp only: sum.case Let_def start run_step_run_in_order)
    apply (simp only: append_Nil append_assoc)
    done
qed

lemma run_in_order_prefix:
  "run_in_order action ss w = (started, r) \<Longrightarrow> \<exists>rest. ss = started @ rest"
  by (induction ss arbitrary: w started r) (auto split: sum.splits prod.splits)

lemma run_in_order_success:
  "run_in_order action ss w = (started, Inr w') \<Longrightarrow> started = ss"
  by (induction ss arbitrary: w started) (auto split: sum.splits prod.splits)

lemma run_in_order_error:
  "run_in_order action ss w = (started, Inl e) \<Longrightarrow>
     \<exists>before s w'. started = before @ [s] \<and> run_in_order action before w = (before, Inr w') \<and>
        action s w' = Inl e"
proof (induction ss arbitrary: w started)
  case Nil
  then show ?case by simp
next
  case (Cons a ss)
  show ?case
  proof (cases "action a w")
    case (Inl e')
    with Cons.prems have "started = [] @ [a]" "run_in_order action [] w = ([], Inr w)"
      "action a w = Inl e"
      by auto
    then show ?thesis by blast
  next
    case (Inr w1)
    with Cons.prems obtain st where st: "run_in_order action ss w1 = (st, Inl e)" "started = a # st"
      by (auto split: prod.splits)
    from Cons.IH [OF st(1)] obtain before s w' where
      b: "st = before @ [s]" "run_in_order action before w1 = (before, Inr w')" "action s w' = Inl e"
      by blast
    have "started = (a # before) @ [s]" using st b by simp
    moreover have "run_in_order action (a # before) w = (a # before, Inr w')"
      using Inr b by simp
    ultimately show ?thesis using b(3) by blast
  qed
qed

end
